theory Spec2Isabelle
  imports Complex_Main "HOL-Library.Extended_Nat" "HOL-Library.Word"
begin

section \<open>Burrow detection pass: a shallow embedding of \<^verbatim>\<open>pass4.py\<close>\<close>

text \<open>
  The pass keeps a persistent burrow mask, cuts it into chunks, connects the chunks to
  the ground line and matches the resulting burrows against the tracks of earlier
  frames. The raster and polygon primitives it calls (OpenCV, scipy.ndimage, shapely and
  the \<^verbatim>\<open>video.analysis\<close> helpers) are not part of the file: they enter the model as
  parameters, collected in records, and every theorem holds for all of them unless it
  says otherwise. Control flow, bookkeeping lists, object identity and the exceptions
  that numpy and Python lists raise are modelled as the code has them.
\<close>

subsection \<open>Exceptions and numpy reductions\<close>

datatype error = ValueError | AssertionError

text \<open>
  \<^verbatim>\<open>np.argmin\<close> returns the first index of a minimal entry and raises
  \<^verbatim>\<open>ValueError\<close> on an empty array; \<^verbatim>\<open>np.min\<close> raises it as well.
\<close>

fun argmin_from :: "'d::linorder \<Rightarrow> nat \<Rightarrow> nat \<Rightarrow> 'd list \<Rightarrow> nat" where
  "argmin_from best bi i [] = bi"
| "argmin_from best bi i (x # xs) =
     (if x < best then argmin_from x i (Suc i) xs else argmin_from best bi (Suc i) xs)"

fun np_argmin :: "'d::linorder list \<Rightarrow> error + nat" where
  "np_argmin [] = Inl ValueError"
| "np_argmin (x # xs) = Inr (argmin_from x 0 1 xs)"

fun np_min :: "'d::linorder list \<Rightarrow> error + 'd" where
  "np_min [] = Inl ValueError"
| "np_min (x # xs) = Inr (fold min xs x)"

subsection \<open>The connectivity resolver: \<^verbatim>\<open>connect_burrow_chunks\<close>\<close>

text \<open>
  Distances are values of a linear order with a greatest element (\<^verbatim>\<open>np.inf\<close>) and a
  unit \<open>1\<close>: the floats of the code without NaN. A structure to connect to is the ground
  line or the ring of another chunk.
\<close>

datatype 'o target = GroundLine | LinearRing 'o

record ('o, 'm, 'd, 'b) geometry =
  ground_distance :: "'o \<Rightarrow> 'd"
  ring_distance :: "'o \<Rightarrow> 'o \<Rightarrow> 'd"
  bridge_outline :: "'o \<Rightarrow> 'o target \<Rightarrow> 'o"
  fill_poly :: "'m \<Rightarrow> 'o \<Rightarrow> 'm"
  merge_outline :: "'o \<Rightarrow> 'o \<Rightarrow> 'o"
  make_burrow :: "'o \<Rightarrow> 'b"

text \<open>
  \<^verbatim>\<open>_connect_burrow_to_structure\<close>: the exit points, their clustering and the hulls
  are shapely and scipy calls (\<open>bridge_outline\<close>); the outline found is painted into the
  burrow mask and returned.
\<close>

definition connect_burrow_to_structure ::
  "('o, 'm, 'd, 'b) geometry \<Rightarrow> 'm \<Rightarrow> 'o \<Rightarrow> 'o target \<Rightarrow> 'o \<times> 'm" where
  "connect_burrow_to_structure G m contour ring =
     (let outline = bridge_outline G contour ring in (outline, fill_poly G m outline))"

text \<open>
  The list \<^verbatim>\<open>burrow_chunks\<close> holds references: the merge loop compares the entries
  with \<^verbatim>\<open>id\<close>. A slot is modelled as the pair of the object's identity and its
  value; the objects are never mutated, only slots are rebound, and a new object gets
  the identity \<open>next_id\<close>. The chunks handed in are distinct objects, numbered by
  their position.
\<close>

record ('o, 'm) resolver =
  burrow_chunks :: "(nat \<times> 'o) list"
  burrow_mask :: 'm
  next_id :: nat
  connected :: "nat list"
  disconnected :: "nat list"

definition ground_dist :: "('o, 'm, 'd, 'b) geometry \<Rightarrow> 'o list \<Rightarrow> 'd list" where
  "ground_dist G cs = map (ground_distance G) cs"

definition burrow_dist ::
  "('o, 'm, 'd::{linorder,order_top,one}, 'b) geometry \<Rightarrow> 'o list \<Rightarrow> 'd list list" where
  "burrow_dist G cs =
     map (\<lambda>x. map (\<lambda>y. if x = y then top
                        else if x < y then ring_distance G (cs ! x) (cs ! y)
                        else ring_distance G (cs ! y) (cs ! x))
                 [0..<length cs])
         [0..<length cs]"

definition connect_to_ground ::
  "('o, 'm, 'd, 'b) geometry \<Rightarrow> nat \<Rightarrow> ('o, 'm) resolver \<Rightarrow> ('o, 'm) resolver" where
  "connect_to_ground G k s =
     (let (outline, m) = connect_burrow_to_structure G (burrow_mask s)
                           (snd (burrow_chunks s ! k)) GroundLine
      in s\<lparr>burrow_chunks := (burrow_chunks s)[k := (next_id s, outline)],
            burrow_mask := m,
            next_id := Suc (next_id s)\<rparr>)"

fun classify_chunks ::
  "('o, 'm, 'd::{linorder,order_top,one}, 'b) geometry \<Rightarrow> 'd list \<Rightarrow> 'd list list \<Rightarrow> nat list \<Rightarrow>
     ('o, 'm) resolver \<Rightarrow> error + ('o, 'm) resolver" where
  "classify_chunks G gd bd [] s = Inr s"
| "classify_chunks G gd bd (k # ks) s =
     (case np_min (bd ! k) of
        Inl e \<Rightarrow> Inl e
      | Inr closest \<Rightarrow>
          if gd ! k < closest then
            (let s1 = (if 1 < gd ! k then connect_to_ground G k s else s)
             in classify_chunks G gd bd ks (s1\<lparr>connected := connected s1 @ [k]\<rparr>))
          else classify_chunks G gd bd ks (s\<lparr>disconnected := disconnected s @ [k]\<rparr>))"

definition force_ground_link ::
  "('o, 'm, 'd::{linorder,order_top,one}, 'b) geometry \<Rightarrow> 'd list \<Rightarrow> ('o, 'm) resolver \<Rightarrow>
     error + ('o, 'm) resolver" where
  "force_ground_link G gd s =
     (if length (connected s) = 0 then
        (case np_argmin gd of
           Inl e \<Rightarrow> Inl e
         | Inr k \<Rightarrow>
             (let s1 = connect_to_ground G k s
              in if k \<in> set (disconnected s1)
                 then Inr (s1\<lparr>connected := connected s1 @ [k],
                               disconnected := remove1 k (disconnected s1)\<rparr>)
                 else Inl ValueError))
      else Inr s)"

text \<open>
  The body of the merge loop: the closest pair of a disconnected and a connected chunk
  is selected (\<open>merge_step\<close>), and the disconnected chunk is bridged to the connected
  one and merged with it; every slot that refers to the connected chunk's object is
  rebound to the merged outline (\<open>merge_chunks\<close>).
\<close>

definition merge_chunks ::
  "('o, 'm, 'd, 'b) geometry \<Rightarrow> nat \<Rightarrow> nat \<Rightarrow> ('o, 'm) resolver \<Rightarrow> ('o, 'm) resolver" where
  "merge_chunks G k1 k2 s =
     (let c1 = disconnected s ! k1;
          c2 = connected s ! k2;
          ring = snd (burrow_chunks s ! c2);
          (enlarged_chunk, m) =
             connect_burrow_to_structure G (burrow_mask s)
               (snd (burrow_chunks s ! c1)) (LinearRing ring);
          outline = (next_id s, merge_outline G enlarged_chunk ring);
          chunks1 = (burrow_chunks s)[c1 := outline];
          id_c2 = fst (chunks1 ! c2);
          chunks2 = map (\<lambda>bc. if fst bc = id_c2 then outline else bc) chunks1
      in s\<lparr>burrow_chunks := chunks2,
            burrow_mask := m,
            next_id := Suc (next_id s),
            disconnected := take k1 (disconnected s) @ drop (Suc k1) (disconnected s),
            connected := connected s @ [c1]\<rparr>)"

definition merge_step ::
  "('o, 'm, 'd::{linorder,order_top,one}, 'b) geometry \<Rightarrow> 'd list list \<Rightarrow> ('o, 'm) resolver \<Rightarrow>
     error + ('o, 'm) resolver" where
  "merge_step G bd s =
     (let dist = concat (map (\<lambda>d. map (\<lambda>c. bd ! d ! c) (connected s)) (disconnected s))
      in case np_argmin dist of
           Inl e \<Rightarrow> Inl e
         | Inr flat \<Rightarrow>
             Inr (merge_chunks G (flat div length (connected s))
                    (flat mod length (connected s)) s))"

lemma argmin_from_range: "bi < i \<Longrightarrow> argmin_from best bi i xs < i + length xs"
proof (induction xs arbitrary: best bi i)
  case Nil
  then show ?case by simp
next
  case (Cons x xs)
  have "argmin_from x i (Suc i) xs < Suc i + length xs"
    using Cons.IH [of i "Suc i" x] by simp
  moreover have "argmin_from best bi (Suc i) xs < Suc i + length xs"
    using Cons.IH [of bi "Suc i" best] Cons.prems by simp
  ultimately show ?case by simp
qed

lemma np_argmin_range: "np_argmin xs = Inr k \<Longrightarrow> k < length xs"
  using argmin_from_range [of 0 1] by (cases xs) auto

lemma length_concat_const:
  "length (concat (map (\<lambda>d. map (f d) cs) ds)) = length ds * length cs"
  by (induction ds) auto

lemma merge_chunks_disconnected:
  "disconnected (merge_chunks G k1 k2 s) =
     take k1 (disconnected s) @ drop (Suc k1) (disconnected s)"
  by (simp add: merge_chunks_def Let_def split: prod.splits)

lemma merge_step_selects:
  assumes "merge_step G bd s = Inr s'"
  shows "\<exists>flat. flat < length (disconnected s) * length (connected s) \<and>
           s' = merge_chunks G (flat div length (connected s)) (flat mod length (connected s)) s"
proof -
  let ?dist = "concat (map (\<lambda>d. map (\<lambda>c. bd ! d ! c) (connected s)) (disconnected s))"
  from assms obtain flat where flat: "np_argmin ?dist = Inr flat"
    and s': "s' = merge_chunks G (flat div length (connected s)) (flat mod length (connected s)) s"
    by (auto simp: merge_step_def Let_def split: sum.splits)
  have "flat < length (disconnected s) * length (connected s)"
    using np_argmin_range [OF flat] by (simp add: length_concat_const)
  with s' show ?thesis by blast
qed

lemma merge_step_shrinks:
  assumes "merge_step G bd s = Inr s'" and "disconnected s \<noteq> []"
  shows "length (disconnected s') < length (disconnected s)"
proof -
  from merge_step_selects [OF assms(1)] obtain flat
    where lt: "flat < length (disconnected s) * length (connected s)"
      and s': "s' = merge_chunks G (flat div length (connected s)) (flat mod length (connected s)) s"
    by blast
  from lt have "flat div length (connected s) < length (disconnected s)"
    by (simp add: less_mult_imp_div_less)
  then show ?thesis by (simp add: s' merge_chunks_disconnected)
qed

function merge_loop ::
  "('o, 'm, 'd::{linorder,order_top,one}, 'b) geometry \<Rightarrow> 'd list list \<Rightarrow> ('o, 'm) resolver \<Rightarrow>
     error + ('o, 'm) resolver" where
  "merge_loop G bd s =
     (if disconnected s = [] then Inr s
      else case merge_step G bd s of
             Inl e \<Rightarrow> Inl e
           | Inr s' \<Rightarrow> merge_loop G bd s')"
  by pat_completeness auto
termination
  by (relation "measure (\<lambda>(G, bd, s). length (disconnected s))")
     (auto dest: merge_step_shrinks)

text \<open>
  The code of the resolver up to the merge loop: the distances, the classification of
  every chunk, the forced link when no chunk was classified as connected, and the
  assertion that every chunk is in one of the two lists.
\<close>

definition initial_resolver :: "'m \<Rightarrow> 'o list \<Rightarrow> ('o, 'm) resolver" where
  "initial_resolver m cs =
     \<lparr>burrow_chunks = zip [0..<length cs] cs, burrow_mask = m,
      next_id = length cs, connected = [], disconnected = []\<rparr>"

definition classified ::
  "('o, 'm, 'd::{linorder,order_top,one}, 'b) geometry \<Rightarrow> 'm \<Rightarrow> 'o list \<Rightarrow> error + ('o, 'm) resolver" where
  "classified G m cs =
     classify_chunks G (ground_dist G cs) (burrow_dist G cs) [0..<length cs]
       (initial_resolver m cs)"

definition resolver_entry ::
  "('o, 'm, 'd::{linorder,order_top,one}, 'b) geometry \<Rightarrow> 'm \<Rightarrow> 'o list \<Rightarrow> error + ('o, 'm) resolver" where
  "resolver_entry G m cs =
     (case classified G m cs of
        Inl e \<Rightarrow> Inl e
      | Inr s1 \<Rightarrow>
          (case force_ground_link G (ground_dist G cs) s1 of
             Inl e \<Rightarrow> Inl e
           | Inr s2 \<Rightarrow>
               if set (connected s2) \<union> set (disconnected s2) = set [0..<length cs]
               then Inr s2 else Inl AssertionError))"

text \<open>
  Modelled from the spec: \<^verbatim>\<open>unique_based_on_id\<close> of \<^verbatim>\<open>mousetracking/algorithm/utils.py\<close>
  is not among the sources. The spec has the merged outlines deduplicated by reference
  identity: the first slot of every identity is kept, in the order of the list.
\<close>

fun unique_from :: "nat list \<Rightarrow> (nat \<times> 'o) list \<Rightarrow> 'o list" where
  "unique_from seen [] = []"
| "unique_from seen (bc # bcs) =
     (if fst bc \<in> set seen then unique_from seen bcs
      else snd bc # unique_from (fst bc # seen) bcs)"

definition unique_based_on_id :: "(nat \<times> 'o) list \<Rightarrow> 'o list" where
  "unique_based_on_id bcs = unique_from [] bcs"

definition connect_burrow_chunks ::
  "('o, 'm, 'd::{linorder,order_top,one}, 'b) geometry \<Rightarrow> 'm \<Rightarrow> 'o list \<Rightarrow> error + ('b list \<times> 'm)" where
  "connect_burrow_chunks G m cs =
     (if length cs = 0 then Inr ([], m)
      else case resolver_entry G m cs of
             Inl e \<Rightarrow> Inl e
           | Inr s2 \<Rightarrow>
               (case merge_loop G (burrow_dist G cs) s2 of
                  Inl e \<Rightarrow> Inl e
                | Inr s \<Rightarrow>
                    Inr (map (make_burrow G) (unique_based_on_id (burrow_chunks s)),
                         burrow_mask s)))"

subsection \<open>The burrow mask: \<^verbatim>\<open>get_ground_mask\<close>, \<^verbatim>\<open>update_burrow_mask\<close>\<close>

text \<open>
  A raster of \<^verbatim>\<open>np.uint8\<close> is the list of its pixels, row after row; all rasters of a run
  have the size of the video. The frame and the background average are floats, modelled
  as reals. \<^verbatim>\<open>ndarray.sum\<close> of a \<^verbatim>\<open>uint8\<close> raster accumulates in the platform's unsigned
  integer, which no raster of a video overflows, so the sum is a natural number.
\<close>

type_synonym image = "8 word list"

definition np_sum :: "image \<Rightarrow> nat" where
  "np_sum img = sum_list (map unat img)"

text \<open>
  \<^verbatim>\<open>get_ground_mask\<close> fills the polygon below the ground profile with the colour 255.
  Which pixels \<^verbatim>\<open>cv2.fillPoly\<close> covers is the parameter \<open>below\<close>; \<open>n\<close> is the number of
  pixels of the video.
\<close>

definition get_ground_mask :: "(nat \<Rightarrow> bool) \<Rightarrow> nat \<Rightarrow> image" where
  "get_ground_mask below n = map (\<lambda>p. if below p then 255 else 0) [0..<n]"

text \<open>
  \<^verbatim>\<open>cv2.morphologyEx\<close> with the 3 by 3 elliptic kernel, for \<^verbatim>\<open>MORPH_OPEN\<close> and
  \<^verbatim>\<open>MORPH_CLOSE\<close>.
\<close>

record morphology =
  morph_open :: "image \<Rightarrow> image"
  morph_close :: "image \<Rightarrow> image"

text \<open>
  \<^verbatim>\<open>mask[:] = (diff < -change_threshold)\<close> with \<^verbatim>\<open>diff = -self.background_avg + frame\<close>;
  the raster \<^verbatim>\<open>mask\<close> of the code is called \<open>flagged\<close> below.
\<close>

definition excavated :: "real list \<Rightarrow> real list \<Rightarrow> real \<Rightarrow> image" where
  "excavated background_avg frame change_threshold =
     map (\<lambda>(b, f). if - b + f < - change_threshold then 1 else 0) (zip background_avg frame)"

text \<open>The part of \<^verbatim>\<open>update_burrow_mask\<close> after the early return.\<close>

definition enlarge_burrows :: "morphology \<Rightarrow> image \<Rightarrow> image \<Rightarrow> image \<Rightarrow> image" where
  "enlarge_burrows M ground_mask flagged bmask =
     (let mask1 = morph_open M flagged;
          bmask1 = map (\<lambda>(b, m). if m = 1 then 1 else b) (zip bmask mask1);
          bmask2 = morph_close M bmask1
      in map (\<lambda>(b, g). if g = 0 then 0 else b) (zip bmask2 ground_mask))"

definition update_burrow_mask ::
  "morphology \<Rightarrow> (nat \<Rightarrow> bool) \<Rightarrow> real list \<Rightarrow> real \<Rightarrow> real list \<Rightarrow> image \<Rightarrow> image" where
  "update_burrow_mask M below background_avg change_threshold frame bmask =
     (let ground_mask = get_ground_mask below (length frame);
          flagged = excavated background_avg frame change_threshold
      in if real (np_sum flagged) > 0.1 * real (np_sum ground_mask) then bmask
         else enlarge_burrows M ground_mask flagged bmask)"

subsection \<open>Labelled regions: \<^verbatim>\<open>get_burrow_chunks\<close>, \<^verbatim>\<open>get_initial_burrow_mask\<close>\<close>

text \<open>
  The calls into scipy.ndimage, OpenCV, shapely and \<^verbatim>\<open>video.analysis.image\<close>:
  \<open>label\<close> is \<^verbatim>\<open>ndimage.measurements.label\<close> (the label raster and the number of
  features), \<open>region_area\<close> the area of \<^verbatim>\<open>image.regionprops(labels == label)\<close>,
  \<open>centroid_distance\<close> the distance of the region's centroid to the ground line,
  \<open>find_contour\<close> the squeezed outer contour of \<^verbatim>\<open>cv2.findContours\<close>, and \<open>erode\<close> is
  \<^verbatim>\<open>cv2.erode\<close> with the elliptic kernel of the given width.
\<close>

record 'p regions =
  label :: "image \<Rightarrow> nat list \<times> nat"
  region_area :: "nat list \<Rightarrow> nat \<Rightarrow> real"
  centroid_distance :: "nat list \<Rightarrow> nat \<Rightarrow> real"
  find_contour :: "nat list \<Rightarrow> nat \<Rightarrow> 'p list"
  erode :: "image \<Rightarrow> nat \<Rightarrow> image"

record parameters =
  area_min :: real
  ground_point_distance :: real
  color_sand :: real
  color_sky :: real

text \<open>\<^verbatim>\<open>frame[labels == label].mean()\<close> and \<^verbatim>\<open>self.burrow_mask[labels == label] = 0\<close>.\<close>

definition region_mean :: "real list \<Rightarrow> nat list \<Rightarrow> nat \<Rightarrow> real" where
  "region_mean frame labels l =
     (let vs = map fst (filter (\<lambda>(f, lab). lab = l) (zip frame labels))
      in sum_list vs / real (length vs))"

definition clear_region :: "image \<Rightarrow> nat list \<Rightarrow> nat \<Rightarrow> image" where
  "clear_region bmask labels l = map (\<lambda>(b, lab). if lab = l then 0 else b) (zip bmask labels)"

text \<open>
  The body of the loop of \<^verbatim>\<open>get_burrow_chunks\<close> over the labels: the three
  \<^verbatim>\<open>continue\<close> branches, then the contour, which is appended when it has more than two
  points. The state is the list of chunks and the burrow mask.
\<close>

definition check_region ::
  "'p regions \<Rightarrow> parameters \<Rightarrow> real list \<Rightarrow> nat list \<Rightarrow> real \<Rightarrow> nat \<Rightarrow>
     'p list list \<times> image \<Rightarrow> 'p list list \<times> image" where
  "check_region R P frame labels color_thresh l st =
     (if region_area R labels l < area_min P then st
      else if centroid_distance R labels l < ground_point_distance P / 2 then st
      else if region_mean frame labels l > color_thresh
        then (fst st, clear_region (snd st) labels l)
      else (let contour = find_contour R labels l
            in if length contour > 2 then (fst st @ [contour], snd st) else st))"

definition get_burrow_chunks ::
  "'p regions \<Rightarrow> parameters \<Rightarrow> real list \<Rightarrow> image \<Rightarrow> 'p list list \<times> image" where
  "get_burrow_chunks R P frame bmask =
     (case label R bmask of
        (labels, num_features) \<Rightarrow>
          (let fraction = 0.8;
               color_thresh = fraction * color_sand P + (1 - fraction) * color_sky P
           in fold (check_region R P frame labels color_thresh)
                [1..<num_features + 1] ([], bmask)))"

text \<open>
  \<^verbatim>\<open>get_initial_burrow_mask\<close>. \<^verbatim>\<open>ndimage.measurements.sum(labels, labels, index)\<close>
  sums, for every index, the values of its first argument over the pixels that carry the
  index in its second argument: here both are the label raster. \<^verbatim>\<open>max\<close> of an empty
  sequence raises \<^verbatim>\<open>ValueError\<close>.
\<close>

definition ndimage_sum :: "nat list \<Rightarrow> nat list \<Rightarrow> nat list \<Rightarrow> nat list" where
  "ndimage_sum input labels index =
     map (\<lambda>i. sum_list (map fst (filter (\<lambda>(v, lab). lab = i) (zip input labels)))) index"

fun py_max :: "nat list \<Rightarrow> error + nat" where
  "py_max [] = Inl ValueError"
| "py_max (x # xs) = Inr (fold max xs x)"

definition apply_threshold :: "real list \<Rightarrow> image \<Rightarrow> real \<Rightarrow> image" where
  "apply_threshold frame ground_mask color_thresh =
     map (\<lambda>(f, g). if g = 0 then 0 else if f < color_thresh then 1 else 0) (zip frame ground_mask)"

text \<open>
  The \<^verbatim>\<open>while\<close> loop starts with \<^verbatim>\<open>largest_area = np.inf\<close>, so its body runs at least
  once; the function below is the body followed by the test. Whether the loop ends
  depends on the frame and on the labelling, so not returning is the value \<open>None\<close>.
\<close>

partial_function (option) threshold_loop ::
  "'p regions \<Rightarrow> parameters \<Rightarrow> real list \<Rightarrow> image \<Rightarrow> real \<Rightarrow> (error + image) option" where
  "threshold_loop R P frame ground_mask color_thresh =
     (let bmask = apply_threshold frame ground_mask color_thresh
      in case label R bmask of
           (labels, num_features) \<Rightarrow>
             (case py_max (ndimage_sum labels labels [1..<num_features + 1]) of
                Inl e \<Rightarrow> Some (Inl e)
              | Inr largest_area \<Rightarrow>
                  if real largest_area > 10 * area_min P
                  then threshold_loop R P frame ground_mask (color_thresh - 1)
                  else Some (Inr bmask)))"

declare threshold_loop.simps [code]

definition remove_far_regions :: "'p regions \<Rightarrow> parameters \<Rightarrow> image \<Rightarrow> image" where
  "remove_far_regions R P bmask =
     (case label R bmask of
        (labels, num_features) \<Rightarrow>
          fold (\<lambda>l bm. if centroid_distance R labels l > ground_point_distance P
                        then clear_region bm labels l else bm)
            [1..<num_features + 1] bmask)"

definition get_initial_burrow_mask ::
  "'p regions \<Rightarrow> parameters \<Rightarrow> (nat \<Rightarrow> bool) \<Rightarrow> real list \<Rightarrow> (error + image) option" where
  "get_initial_burrow_mask R P below frame =
     (let w = nat \<lfloor>ground_point_distance P\<rfloor>;
          ground_mask = erode R (get_ground_mask below (length frame)) w;
          fraction = 0.33;
          color_thresh = fraction * color_sand P + (1 - fraction) * color_sky P
      in case threshold_loop R P frame ground_mask color_thresh of
           None \<Rightarrow> None
         | Some (Inl e) \<Rightarrow> Some (Inl e)
         | Some (Inr bmask) \<Rightarrow> Some (Inr (remove_far_regions R P bmask)))"

subsection \<open>Burrow tracks: \<^verbatim>\<open>add_burrows_to_tracks\<close>\<close>

text \<open>
  Modelled from the spec: the classes \<^verbatim>\<open>Burrow\<close>, \<^verbatim>\<open>BurrowTrack\<close> and
  \<^verbatim>\<open>BurrowTrackList\<close> of \<^verbatim>\<open>mousetracking/algorithm/objects/burrow.py\<close> are not among the
  sources. The spec has a track be an ordered sequence of pairs of a frame index and a
  burrow, with an \<open>active\<close> flag; a track is created with one pair and is append-only, and
  its most recent element is its last outline. A new track is taken to be active.
  Whether two burrows intersect and whether they differ (\<^verbatim>\<open>burrow != track.last\<close>) are
  parameters.
\<close>

record 'b track =
  first_entry :: "int \<times> 'b"
  later_entries :: "(int \<times> 'b) list"
  active :: bool

definition track_last :: "'b track \<Rightarrow> 'b" where
  "track_last t = snd (last (first_entry t # later_entries t))"

definition track_append :: "int \<Rightarrow> 'b \<Rightarrow> 'b track \<Rightarrow> 'b track" where
  "track_append frame_id burrow t = t\<lparr>later_entries := later_entries t @ [(frame_id, burrow)]\<rparr>"

definition create_track :: "int \<Rightarrow> 'b \<Rightarrow> 'b track list \<Rightarrow> 'b track list" where
  "create_track frame_id burrow tracks =
     tracks @ [\<lparr>first_entry = (frame_id, burrow), later_entries = [], active = True\<rparr>]"

text \<open>
  The list \<^verbatim>\<open>active_tracks\<close> holds references to the track objects of
  \<^verbatim>\<open>burrow_tracks\<close>: a reference is the position of the track in \<^verbatim>\<open>burrow_tracks\<close>, which
  only grows at its end. The inner loop over \<^verbatim>\<open>enumerate(active_tracks)\<close> with its
  \<^verbatim>\<open>break\<close> and its \<^verbatim>\<open>else\<close> branch is \<open>match_burrow\<close>; the state is the list of tracks
  and the set \<^verbatim>\<open>tracks_extended\<close>.
\<close>

fun match_burrow ::
  "('b \<Rightarrow> 'b \<Rightarrow> bool) \<Rightarrow> ('b \<Rightarrow> 'b \<Rightarrow> bool) \<Rightarrow> int \<Rightarrow> 'b \<Rightarrow> (nat \<times> nat) list \<Rightarrow>
     'b track list \<times> nat set \<Rightarrow> 'b track list \<times> nat set" where
  "match_burrow intersects differs frame_id burrow [] st =
     (create_track frame_id burrow (fst st), snd st)"
| "match_burrow intersects differs frame_id burrow ((track_id, r) # rest) st =
     (if intersects burrow (track_last (fst st ! r)) then
        ((if differs burrow (track_last (fst st ! r))
          then (fst st)[r := track_append frame_id burrow (fst st ! r)]
          else fst st),
         insert track_id (snd st))
      else match_burrow intersects differs frame_id burrow rest st)"

definition deactivate ::
  "nat set \<Rightarrow> (nat \<times> nat) list \<Rightarrow> 'b track list \<Rightarrow> 'b track list" where
  "deactivate tracks_extended active_tracks tracks =
     fold (\<lambda>(track_id, r) ts.
             if track_id \<notin> tracks_extended then ts[r := (ts ! r)\<lparr>active := False\<rparr>] else ts)
       active_tracks tracks"

definition active_tracks_of :: "'b track list \<Rightarrow> (nat \<times> nat) list" where
  "active_tracks_of tracks = List.enumerate 0 (filter (\<lambda>r. active (tracks ! r)) [0..<length tracks])"

definition add_burrows_to_tracks ::
  "('b \<Rightarrow> 'b \<Rightarrow> bool) \<Rightarrow> ('b \<Rightarrow> 'b \<Rightarrow> bool) \<Rightarrow> int \<Rightarrow> 'b list \<Rightarrow> 'b track list \<Rightarrow> 'b track list" where
  "add_burrows_to_tracks intersects differs frame_id burrows burrow_tracks =
     (let active_tracks = active_tracks_of burrow_tracks;
          st = fold (\<lambda>burrow. match_burrow intersects differs frame_id burrow active_tracks)
                 burrows (burrow_tracks, {})
      in deactivate (snd st) active_tracks (fst st))"

text \<open>
  The pass calls \<^verbatim>\<open>add_burrows_to_tracks\<close> once per frame, with the burrows found in
  that frame; nothing else changes the tracks.
\<close>

fun process_frames ::
  "('b \<Rightarrow> 'b \<Rightarrow> bool) \<Rightarrow> ('b \<Rightarrow> 'b \<Rightarrow> bool) \<Rightarrow> (int \<times> 'b list) list \<Rightarrow> 'b track list \<Rightarrow> 'b track list" where
  "process_frames intersects differs [] tracks = tracks"
| "process_frames intersects differs ((frame_id, burrows) # frames) tracks =
     process_frames intersects differs frames
       (add_burrows_to_tracks intersects differs frame_id burrows tracks)"

subsection \<open>Notions used to state and prove the resolver's properties\<close>

text \<open>
  None of the following is code of the pass: the predicates name the cases of the
  classification, the invariant of the merge loop and the iteration of its body, and
  the last definitions give a small concrete geometry (chunks as depth intervals below a
  ground line at depth 0) on which the theorems are instantiated.
\<close>

definition closest_to_ground :: "'d::linorder list \<Rightarrow> 'd list list \<Rightarrow> nat \<Rightarrow> bool" where
  "closest_to_ground gd bd k = (\<forall>y\<in>set (bd ! k). gd ! k < y)"

definition bridged :: "'d::{linorder,one} list \<Rightarrow> 'd list list \<Rightarrow> nat \<Rightarrow> bool" where
  "bridged gd bd k = (closest_to_ground gd bd k \<and> 1 < gd ! k)"

definition classify_one ::
  "('o, 'm, 'd::{linorder,order_top,one}, 'b) geometry \<Rightarrow> 'd list \<Rightarrow> 'd list list \<Rightarrow> nat \<Rightarrow>
     ('o, 'm) resolver \<Rightarrow> ('o, 'm) resolver" where
  "classify_one G gd bd k s =
     (if closest_to_ground gd bd k then
        (let s1 = (if 1 < gd ! k then connect_to_ground G k s else s)
         in s1\<lparr>connected := connected s1 @ [k]\<rparr>)
      else s\<lparr>disconnected := disconnected s @ [k]\<rparr>)"

definition ids_ok :: "('o, 'm) resolver \<Rightarrow> bool" where
  "ids_ok s = (distinct (map fst (burrow_chunks s)) \<and>
               (\<forall>p\<in>set (burrow_chunks s). fst p < next_id s))"

definition classified_from ::
  "('o, 'm, 'd::{linorder,order_top,one}, 'b) geometry \<Rightarrow> 'd list \<Rightarrow> 'd list list \<Rightarrow> nat list \<Rightarrow>
     ('o, 'm) resolver \<Rightarrow> ('o, 'm) resolver \<Rightarrow> bool" where
  "classified_from G gd bd ks s s' =
     (connected s' = connected s @ filter (closest_to_ground gd bd) ks \<and>
      disconnected s' = disconnected s @ filter (\<lambda>k. \<not> closest_to_ground gd bd k) ks \<and>
      length (burrow_chunks s') = length (burrow_chunks s) \<and>
      next_id s \<le> next_id s' \<and>
      (\<forall>k<length (burrow_chunks s). k \<in> set ks \<and> bridged gd bd k \<longrightarrow>
          snd (burrow_chunks s' ! k) = bridge_outline G (snd (burrow_chunks s ! k)) GroundLine \<and>
          next_id s \<le> fst (burrow_chunks s' ! k)) \<and>
      (\<forall>k<length (burrow_chunks s). \<not> (k \<in> set ks \<and> bridged gd bd k) \<longrightarrow>
          burrow_chunks s' ! k = burrow_chunks s ! k) \<and>
      burrow_mask s' =
        fold (\<lambda>k m. fill_poly G m (bridge_outline G (snd (burrow_chunks s ! k)) GroundLine))
          (filter (bridged gd bd) ks) (burrow_mask s) \<and>
      (ids_ok s \<longrightarrow> ids_ok s'))"

definition merged_outline ::
  "('o, 'm, 'd, 'b) geometry \<Rightarrow> nat \<Rightarrow> nat \<Rightarrow> ('o, 'm) resolver \<Rightarrow> nat \<times> 'o" where
  "merged_outline G c1 c2 s =
     (next_id s,
      merge_outline G
        (bridge_outline G (snd (burrow_chunks s ! c1)) (LinearRing (snd (burrow_chunks s ! c2))))
        (snd (burrow_chunks s ! c2)))"

definition resolver_inv :: "nat set \<Rightarrow> nat \<Rightarrow> ('o, 'm) resolver \<Rightarrow> bool" where
  "resolver_inv A n s =
     (length (burrow_chunks s) = n \<and>
      set (connected s) \<union> set (disconnected s) = {0..<n} \<and>
      set (connected s) \<inter> set (disconnected s) = {} \<and>
      distinct (disconnected s) \<and>
      A \<noteq> {} \<and> A \<subseteq> set (connected s) \<and>
      (\<forall>k\<in>set (connected s). \<exists>a\<in>A. fst (burrow_chunks s ! k) = fst (burrow_chunks s ! a)) \<and>
      (\<forall>k<n. fst (burrow_chunks s ! k) < next_id s) \<and>
      (\<forall>i<n. \<forall>j<n. fst (burrow_chunks s ! i) = fst (burrow_chunks s ! j) \<longrightarrow>
          snd (burrow_chunks s ! i) = snd (burrow_chunks s ! j)))"

fun merge_iterate ::
  "nat \<Rightarrow> ('o, 'm, 'd::{linorder,order_top,one}, 'b) geometry \<Rightarrow> 'd list list \<Rightarrow> ('o, 'm) resolver \<Rightarrow>
     error + ('o, 'm) resolver" where
  "merge_iterate 0 G bd s = Inr s"
| "merge_iterate (Suc i) G bd s =
     (case merge_step G bd s of
        Inl e \<Rightarrow> Inl e
      | Inr s' \<Rightarrow> merge_iterate i G bd s')"

definition ground_linked ::
  "('o, 'm, 'd::{linorder,order_top,one}, 'b) geometry \<Rightarrow> 'o list \<Rightarrow> nat list" where
  "ground_linked G cs =
     (let direct = filter (closest_to_ground (ground_dist G cs) (burrow_dist G cs)) [0..<length cs]
      in if direct = [] then (case np_argmin (ground_dist G cs) of Inl e \<Rightarrow> [] | Inr k \<Rightarrow> [k])
         else direct)"

definition interval_distance :: "nat \<times> nat \<Rightarrow> nat \<times> nat \<Rightarrow> enat" where
  "interval_distance a b =
     (if snd a < fst b then enat (fst b - snd a)
      else if snd b < fst a then enat (fst a - snd b) else 0)"

definition interval_bridge :: "nat \<times> nat \<Rightarrow> (nat \<times> nat) target \<Rightarrow> nat \<times> nat" where
  "interval_bridge a t =
     (case t of GroundLine \<Rightarrow> (0, snd a)
      | LinearRing b \<Rightarrow> (min (fst a) (snd b), max (snd a) (fst b)))"

definition interval_geometry ::
  "(nat \<times> nat, (nat \<times> nat) list, enat, nat \<times> nat) geometry" where
  "interval_geometry =
     \<lparr>ground_distance = (\<lambda>a. enat (fst a)),
      ring_distance = interval_distance,
      bridge_outline = interval_bridge,
      fill_poly = (\<lambda>m a. m @ [a]),
      merge_outline = (\<lambda>a b. (min (fst a) (fst b), max (snd a) (snd b))),
      make_burrow = (\<lambda>a. a)\<rparr>"

definition three_chunks :: "(nat \<times> nat) list" where
  "three_chunks = [(0, 2), (4, 6), (9, 10)]"

definition two_chunks :: "(nat \<times> nat) list" where
  "two_chunks = [(2, 3), (10, 12)]"

subsection \<open>Notions used to state the properties of the burrow mask\<close>

text \<open>
  The number of ground pixels of a ground mask, and a morphology of one-row rasters for
  the instances: its opening removes isolated pixels, its closing fills one-pixel gaps.
\<close>

definition row_open :: "image \<Rightarrow> image" where
  "row_open img =
     map (\<lambda>p. if (p = 0 \<or> img ! (p - 1) = 0) \<and> (length img \<le> Suc p \<or> img ! Suc p = 0)
               then 0 else img ! p) [0..<length img]"

definition row_close :: "image \<Rightarrow> image" where
  "row_close img =
     map (\<lambda>p. if 0 < p \<and> Suc p < length img \<and> img ! (p - 1) \<noteq> 0 \<and> img ! Suc p \<noteq> 0 \<and> img ! p = 0
               then 1 else img ! p) [0..<length img]"

definition row_morphology :: morphology where
  "row_morphology = \<lparr>morph_open = row_open, morph_close = row_close\<rparr>"

definition ground_pixels :: "image \<Rightarrow> nat" where
  "ground_pixels ground_mask = length (filter (\<lambda>g. g \<noteq> 0) ground_mask)"

subsection \<open>Notions used to state the properties of the labelled regions\<close>

text \<open>
  The two conditions under which the loop of \<^verbatim>\<open>get_burrow_chunks\<close> reaches the contour
  and clears a region, and concrete region primitives for the instances: one-row rasters,
  labelled run by run, with the pixel count as area and every centroid at distance 10
  from the ground line. The contour of \<open>row_regions\<close> is what
  \<^verbatim>\<open>cv2.CHAIN_APPROX_SIMPLE\<close> keeps of a horizontal run, its two end points;
  \<open>grid_regions\<close> keeps every pixel of the run. Their erosion leaves the raster as it is.
\<close>

fun row_label_from :: "nat \<Rightarrow> bool \<Rightarrow> image \<Rightarrow> nat list \<times> nat" where
  "row_label_from n prev [] = ([], n)"
| "row_label_from n prev (x # xs) =
     (if x = 0 then (case row_label_from n False xs of (ls, m) \<Rightarrow> (0 # ls, m))
      else (let n' = (if prev then n else Suc n)
            in case row_label_from n' True xs of (ls, m) \<Rightarrow> (n' # ls, m)))"

definition row_label :: "image \<Rightarrow> nat list \<times> nat" where
  "row_label img = row_label_from 0 False img"

definition row_contour :: "nat list \<Rightarrow> nat \<Rightarrow> nat list" where
  "row_contour labels l =
     (let ps = filter (\<lambda>p. labels ! p = l) [0..<length labels]
      in if length ps \<le> 1 then ps else [hd ps, last ps])"

definition row_regions :: "nat regions" where
  "row_regions =
     \<lparr>label = row_label,
      region_area = (\<lambda>labels l. real (length (filter (\<lambda>x. x = l) labels))),
      centroid_distance = (\<lambda>labels l. 10),
      find_contour = row_contour,
      erode = (\<lambda>img w. img)\<rparr>"

definition grid_regions :: "nat regions" where
  "grid_regions =
     row_regions\<lparr>find_contour := (\<lambda>labels l. filter (\<lambda>p. labels ! p = l) [0..<length labels])\<rparr>"

definition demo_parameters :: parameters where
  "demo_parameters =
     \<lparr>area_min = 2, ground_point_distance = 12, color_sand = 100, color_sky = 200\<rparr>"

definition keep_region ::
  "'p regions \<Rightarrow> parameters \<Rightarrow> real list \<Rightarrow> nat list \<Rightarrow> real \<Rightarrow> nat \<Rightarrow> bool" where
  "keep_region R P frame labels color_thresh l =
     (area_min P \<le> region_area R labels l \<and>
      ground_point_distance P / 2 \<le> centroid_distance R labels l \<and>
      region_mean frame labels l \<le> color_thresh)"

definition too_bright ::
  "'p regions \<Rightarrow> parameters \<Rightarrow> real list \<Rightarrow> nat list \<Rightarrow> real \<Rightarrow> nat \<Rightarrow> bool" where
  "too_bright R P frame labels color_thresh l =
     (area_min P \<le> region_area R labels l \<and>
      ground_point_distance P / 2 \<le> centroid_distance R labels l \<and>
      color_thresh < region_mean frame labels l)"

definition bootstrap_parameters :: parameters where
  "bootstrap_parameters =
     \<lparr>area_min = 0.3, ground_point_distance = 12, color_sand = 11, color_sky = 11\<rparr>"

section \<open>Theorems about the connectivity resolver\<close>

text \<open>
  C10. Called with an empty list of chunks, \<^verbatim>\<open>connect_burrow_chunks\<close> returns the empty
  list at once: whatever the geometry primitives are, none of them decides the result,
  no exception of an empty \<^verbatim>\<open>argmin\<close> is raised, and the burrow mask is the one handed
  in.
\<close>

theorem connect_burrow_chunks_empty:
  "connect_burrow_chunks G m [] = Inr ([], m)"
  by (simp add: connect_burrow_chunks_def)

lemma np_min_Inr:
  assumes "xs \<noteq> []"
  shows "np_min xs = Inr (Min (set xs))"
proof (cases xs)
  case Nil
  with assms show ?thesis by simp
next
  case (Cons a list)
  show ?thesis unfolding Cons using Min.set_eq_fold [of a list] by simp
qed

lemma np_min_less_iff:
  assumes "xs \<noteq> []"
  shows "(case np_min xs of Inl e \<Rightarrow> False | Inr m \<Rightarrow> v < m) = (\<forall>y\<in>set xs. v < y)"
  using assms by (simp add: np_min_Inr)

lemma burrow_dist_length: "length (burrow_dist G cs) = length cs"
  by (simp add: burrow_dist_def)

lemma burrow_dist_row:
  "k < length cs \<Longrightarrow>
     burrow_dist G cs ! k =
       map (\<lambda>y. if k = y then top
                 else if k < y then ring_distance G (cs ! k) (cs ! y)
                 else ring_distance G (cs ! y) (cs ! k)) [0..<length cs]"
  by (simp add: burrow_dist_def)

lemma burrow_dist_row_nonempty: "k < length cs \<Longrightarrow> burrow_dist G cs ! k \<noteq> []"
  by (auto simp: burrow_dist_row)

lemma burrow_dist_all:
  "k < length cs \<Longrightarrow>
     (\<forall>y\<in>set (burrow_dist G cs ! k). v < y) = (\<forall>j<length cs. v < burrow_dist G cs ! k ! j)"
  by (auto simp: burrow_dist_row)

lemma classify_chunks_fold:
  assumes "\<forall>k\<in>set ks. bd ! k \<noteq> []"
  shows "classify_chunks G gd bd ks s = Inr (fold (classify_one G gd bd) ks s)"
  using assms
proof (induction ks arbitrary: s)
  case Nil
  then show ?case by simp
next
  case (Cons k ks)
  then have ne: "bd ! k \<noteq> []" and rest: "\<forall>k\<in>set ks. bd ! k \<noteq> []" by simp_all
  have step: "classify_chunks G gd bd (k # ks) s =
                classify_chunks G gd bd ks (classify_one G gd bd k s)"
    using ne unfolding classify_one_def closest_to_ground_def
    by (auto simp: np_min_Inr Let_def)
  show ?case unfolding step using Cons.IH [OF rest] by simp
qed

lemma connect_to_ground_fields:
  "connected (connect_to_ground G k s) = connected s"
  "disconnected (connect_to_ground G k s) = disconnected s"
  "next_id (connect_to_ground G k s) = Suc (next_id s)"
  "burrow_chunks (connect_to_ground G k s) =
     (burrow_chunks s)[k := (next_id s, bridge_outline G (snd (burrow_chunks s ! k)) GroundLine)]"
  "burrow_mask (connect_to_ground G k s) =
     fill_poly G (burrow_mask s) (bridge_outline G (snd (burrow_chunks s ! k)) GroundLine)"
  by (simp_all add: connect_to_ground_def connect_burrow_to_structure_def Let_def)

lemma ids_ok_update:
  assumes "ids_ok s" and "k < length (burrow_chunks s)"
  shows "distinct (map fst ((burrow_chunks s)[k := (next_id s, v)]))"
    and "\<forall>p\<in>set ((burrow_chunks s)[k := (next_id s, v)]). fst p < Suc (next_id s)"
proof -
  from assms(1) have d: "distinct (map fst (burrow_chunks s))"
    and b: "\<forall>p\<in>set (burrow_chunks s). fst p < next_id s"
    by (simp_all add: ids_ok_def)
  have "next_id s \<notin> set (map fst (burrow_chunks s))"
    using b by auto
  then show "distinct (map fst ((burrow_chunks s)[k := (next_id s, v)]))"
    using d by (simp add: map_update distinct_list_update)
  show "\<forall>p\<in>set ((burrow_chunks s)[k := (next_id s, v)]). fst p < Suc (next_id s)"
  proof
    fix p assume "p \<in> set ((burrow_chunks s)[k := (next_id s, v)])"
    then have "p = (next_id s, v) \<or> p \<in> set (burrow_chunks s)"
      using set_update_subset_insert [of "burrow_chunks s" k "(next_id s, v)"] by auto
    then show "fst p < Suc (next_id s)" using b by (auto simp: less_Suc_eq)
  qed
qed

lemma connect_to_ground_ids_ok:
  assumes "ids_ok s" and "k < length (burrow_chunks s)"
  shows "ids_ok (connect_to_ground G k s)"
  using ids_ok_update [OF assms] by (simp add: ids_ok_def connect_to_ground_fields)

lemma classify_one_fields:
  "connected (classify_one G gd bd k s) =
     connected s @ (if closest_to_ground gd bd k then [k] else [])"
  "disconnected (classify_one G gd bd k s) =
     disconnected s @ (if closest_to_ground gd bd k then [] else [k])"
  "next_id (classify_one G gd bd k s) = (if bridged gd bd k then Suc (next_id s) else next_id s)"
  "burrow_chunks (classify_one G gd bd k s) =
     (if bridged gd bd k
      then (burrow_chunks s)[k := (next_id s, bridge_outline G (snd (burrow_chunks s ! k)) GroundLine)]
      else burrow_chunks s)"
  "burrow_mask (classify_one G gd bd k s) =
     (if bridged gd bd k
      then fill_poly G (burrow_mask s) (bridge_outline G (snd (burrow_chunks s ! k)) GroundLine)
      else burrow_mask s)"
  by (simp_all add: classify_one_def bridged_def connect_to_ground_fields Let_def)

lemma classify_one_ids_ok:
  assumes "ids_ok s" and "k < length (burrow_chunks s)"
  shows "ids_ok (classify_one G gd bd k s)"
proof (cases "bridged gd bd k")
  case True
  with ids_ok_update [OF assms] show ?thesis
    by (simp add: ids_ok_def classify_one_fields)
next
  case False
  with assms(1) show ?thesis
    by (simp add: ids_ok_def classify_one_fields)
qed

lemma classified_from_fold:
  assumes "distinct ks" and "\<forall>k\<in>set ks. k < length (burrow_chunks s)"
  shows "classified_from G gd bd ks s (fold (classify_one G gd bd) ks s)"
  using assms
proof (induction ks rule: rev_induct)
  case Nil
  then show ?case by (simp add: classified_from_def)
next
  case (snoc k ks)
  define t where "t = fold (classify_one G gd bd) ks s"
  define u where "u = classify_one G gd bd k t"
  from snoc have IH: "classified_from G gd bd ks s t"
    and k: "k \<notin> set ks" "k < length (burrow_chunks s)"
    by (simp_all add: t_def)
  have len: "length (burrow_chunks t) = length (burrow_chunks s)"
    and nid: "next_id s \<le> next_id t"
    and br: "\<And>j. j < length (burrow_chunks s) \<Longrightarrow> j \<in> set ks \<Longrightarrow> bridged gd bd j \<Longrightarrow>
          snd (burrow_chunks t ! j) = bridge_outline G (snd (burrow_chunks s ! j)) GroundLine \<and>
          next_id s \<le> fst (burrow_chunks t ! j)"
    and un: "\<And>j. j < length (burrow_chunks s) \<Longrightarrow> \<not> (j \<in> set ks \<and> bridged gd bd j) \<Longrightarrow>
          burrow_chunks t ! j = burrow_chunks s ! j"
    and con: "connected t = connected s @ filter (closest_to_ground gd bd) ks"
    and dis: "disconnected t = disconnected s @ filter (\<lambda>k. \<not> closest_to_ground gd bd k) ks"
    and msk: "burrow_mask t =
        fold (\<lambda>k m. fill_poly G m (bridge_outline G (snd (burrow_chunks s ! k)) GroundLine))
          (filter (bridged gd bd) ks) (burrow_mask s)"
    and ok: "ids_ok s \<longrightarrow> ids_ok t"
    using IH unfolding classified_from_def by blast+
  have same: "burrow_chunks t ! k = burrow_chunks s ! k"
    using un [of k] k by simp
  have ok': "ids_ok s \<longrightarrow> ids_ok u"
    using ok classify_one_ids_ok [of t k G gd bd] k len by (simp add: u_def)
  have c1: "connected u = connected s @ filter (closest_to_ground gd bd) (ks @ [k])"
    by (simp add: u_def classify_one_fields con)
  have c2: "disconnected u = disconnected s @ filter (\<lambda>k. \<not> closest_to_ground gd bd k) (ks @ [k])"
    by (simp add: u_def classify_one_fields dis)
  have c3: "length (burrow_chunks u) = length (burrow_chunks s)"
    by (simp add: u_def classify_one_fields len)
  have c4: "next_id s \<le> next_id u"
    using nid by (simp add: u_def classify_one_fields)
  have c7: "burrow_mask u =
        fold (\<lambda>k m. fill_poly G m (bridge_outline G (snd (burrow_chunks s ! k)) GroundLine))
          (filter (bridged gd bd) (ks @ [k])) (burrow_mask s)"
    by (simp add: u_def classify_one_fields msk same)
  have c5: "\<forall>j<length (burrow_chunks s). j \<in> set (ks @ [k]) \<and> bridged gd bd j \<longrightarrow>
          snd (burrow_chunks u ! j) = bridge_outline G (snd (burrow_chunks s ! j)) GroundLine \<and>
          next_id s \<le> fst (burrow_chunks u ! j)"
  proof (intro allI impI)
    fix j assume j: "j < length (burrow_chunks s)"
      and jb: "j \<in> set (ks @ [k]) \<and> bridged gd bd j"
    show "snd (burrow_chunks u ! j) = bridge_outline G (snd (burrow_chunks s ! j)) GroundLine \<and>
          next_id s \<le> fst (burrow_chunks u ! j)"
    proof (cases "j = k")
      case True
      with jb k len same nid show ?thesis by (simp add: u_def classify_one_fields)
    next
      case False
      with jb have "j \<in> set ks" "bridged gd bd j" by simp_all
      from br [OF j this] False show ?thesis by (simp add: u_def classify_one_fields)
    qed
  qed
  have c6: "\<forall>j<length (burrow_chunks s). \<not> (j \<in> set (ks @ [k]) \<and> bridged gd bd j) \<longrightarrow>
          burrow_chunks u ! j = burrow_chunks s ! j"
  proof (intro allI impI)
    fix j assume j: "j < length (burrow_chunks s)"
      and jb: "\<not> (j \<in> set (ks @ [k]) \<and> bridged gd bd j)"
    show "burrow_chunks u ! j = burrow_chunks s ! j"
    proof (cases "j = k")
      case True
      with jb same show ?thesis by (simp add: u_def classify_one_fields)
    next
      case False
      with jb have "\<not> (j \<in> set ks \<and> bridged gd bd j)" by simp
      from un [OF j this] False show ?thesis by (simp add: u_def classify_one_fields)
    qed
  qed
  have "classified_from G gd bd (ks @ [k]) s u"
    unfolding classified_from_def using c1 c2 c3 c4 c5 c6 c7 ok' by blast
  then show ?case by (simp add: t_def u_def)
qed

lemma initial_resolver_slots:
  "length (burrow_chunks (initial_resolver m cs)) = length cs"
  "k < length cs \<Longrightarrow> burrow_chunks (initial_resolver m cs) ! k = (k, cs ! k)"
  "ids_ok (initial_resolver m cs)"
  by (auto simp: initial_resolver_def ids_ok_def set_zip)

lemma closest_to_ground_iff:
  "k < length cs \<Longrightarrow>
     closest_to_ground (ground_dist G cs) (burrow_dist G cs) k =
       (\<forall>j<length cs. ground_dist G cs ! k < burrow_dist G cs ! k ! j)"
  by (simp add: closest_to_ground_def burrow_dist_all)

lemma classified_result:
  "\<exists>s. classified G m cs = Inr s \<and>
       classified_from G (ground_dist G cs) (burrow_dist G cs) [0..<length cs]
         (initial_resolver m cs) s"
proof -
  have rows: "\<forall>k\<in>set [0..<length cs]. burrow_dist G cs ! k \<noteq> []"
    by (simp add: burrow_dist_row_nonempty)
  have "classified_from G (ground_dist G cs) (burrow_dist G cs) [0..<length cs]
          (initial_resolver m cs)
          (fold (classify_one G (ground_dist G cs) (burrow_dist G cs)) [0..<length cs]
             (initial_resolver m cs))"
    by (rule classified_from_fold) (simp_all add: initial_resolver_slots)
  then show ?thesis
    unfolding classified_def classify_chunks_fold [OF rows] by simp
qed

text \<open>
  C3 (as amended). The classification loop of \<^verbatim>\<open>connect_burrow_chunks\<close> never
  raises. A chunk \<open>k\<close> is put into \<open>connected\<close> exactly when its distance to the ground
  line is strictly less than every entry of row \<open>k\<close> of the distance matrix, the
  diagonal entry (the distance to itself) being the greatest element; otherwise it is
  put into \<open>disconnected\<close>. A chunk so classified is bridged to the ground line exactly
  when its ground distance is greater than \<open>1\<close> (the guard \<^verbatim>\<open>ground_dist[k] > 1\<close>): its
  slot then holds a new object, the bridged outline, which is painted into the burrow
  mask, in the order of the chunks. Every other chunk, also a connected one whose
  ground distance is at most \<open>1\<close>, keeps its object and is not painted.
\<close>

theorem classification_bridges_beyond_unit_distance:
  fixes G :: "('o, 'm, 'd::{linorder,order_top,one}, 'b) geometry"
  shows "\<exists>s. classified G m cs = Inr s \<and>
     (\<forall>k<length cs. (k \<in> set (connected s)) =
        (\<forall>j<length cs. ground_dist G cs ! k < burrow_dist G cs ! k ! j)) \<and>
     (\<forall>k<length cs. (k \<in> set (disconnected s)) = (k \<notin> set (connected s))) \<and>
     (\<forall>k<length cs. k \<in> set (connected s) \<and> 1 < ground_dist G cs ! k \<longrightarrow>
        snd (burrow_chunks s ! k) = bridge_outline G (cs ! k) GroundLine \<and>
        length cs \<le> fst (burrow_chunks s ! k)) \<and>
     (\<forall>k<length cs. \<not> (k \<in> set (connected s) \<and> 1 < ground_dist G cs ! k) \<longrightarrow>
        burrow_chunks s ! k = (k, cs ! k)) \<and>
     burrow_mask s =
       fold (\<lambda>k m. fill_poly G m (bridge_outline G (cs ! k) GroundLine))
         (filter (\<lambda>k. k \<in> set (connected s) \<and> 1 < ground_dist G cs ! k) [0..<length cs]) m"
proof -
  let ?gd = "ground_dist G cs" and ?bd = "burrow_dist G cs" and ?s0 = "initial_resolver m cs"
  from classified_result [of G m cs] obtain s where run: "classified G m cs = Inr s"
    and cf: "classified_from G ?gd ?bd [0..<length cs] ?s0 s"
    by blast
  have con: "connected s = filter (closest_to_ground ?gd ?bd) [0..<length cs]"
    and dis: "disconnected s = filter (\<lambda>k. \<not> closest_to_ground ?gd ?bd k) [0..<length cs]"
    using cf by (simp_all add: classified_from_def initial_resolver_def)
  have mem: "\<And>k. k < length cs \<Longrightarrow> (k \<in> set (connected s)) = closest_to_ground ?gd ?bd k"
    by (simp add: con)
  have br_iff: "\<And>k. k < length cs \<Longrightarrow>
      (k \<in> set (connected s) \<and> 1 < ?gd ! k) = bridged ?gd ?bd k"
    by (simp add: mem bridged_def)
  have p1: "\<forall>k<length cs. (k \<in> set (connected s)) = (\<forall>j<length cs. ?gd ! k < ?bd ! k ! j)"
    by (simp add: mem closest_to_ground_iff)
  have p2: "\<forall>k<length cs. (k \<in> set (disconnected s)) = (k \<notin> set (connected s))"
    by (simp add: con dis)
  have p3: "\<forall>k<length cs. k \<in> set (connected s) \<and> 1 < ?gd ! k \<longrightarrow>
        snd (burrow_chunks s ! k) = bridge_outline G (cs ! k) GroundLine \<and>
        length cs \<le> fst (burrow_chunks s ! k)"
  proof (intro allI impI)
    fix k assume k: "k < length cs" and b: "k \<in> set (connected s) \<and> 1 < ?gd ! k"
    then have "bridged ?gd ?bd k" by (simp add: br_iff)
    with cf k show "snd (burrow_chunks s ! k) = bridge_outline G (cs ! k) GroundLine \<and>
        length cs \<le> fst (burrow_chunks s ! k)"
      unfolding classified_from_def
      by (simp add: initial_resolver_slots) (simp add: initial_resolver_def)
  qed
  have p4: "\<forall>k<length cs. \<not> (k \<in> set (connected s) \<and> 1 < ?gd ! k) \<longrightarrow>
        burrow_chunks s ! k = (k, cs ! k)"
  proof (intro allI impI)
    fix k assume k: "k < length cs" and b: "\<not> (k \<in> set (connected s) \<and> 1 < ?gd ! k)"
    then have "\<not> bridged ?gd ?bd k" by (simp add: br_iff)
    with cf k show "burrow_chunks s ! k = (k, cs ! k)"
      unfolding classified_from_def by (simp add: initial_resolver_slots)
  qed
  have flt: "filter (\<lambda>k. k \<in> set (connected s) \<and> 1 < ?gd ! k) [0..<length cs] =
             filter (bridged ?gd ?bd) [0..<length cs]"
    by (rule filter_cong) (simp_all add: br_iff)
  have fld: "fold (\<lambda>k m. fill_poly G m (bridge_outline G (snd (burrow_chunks ?s0 ! k)) GroundLine))
               (filter (bridged ?gd ?bd) [0..<length cs]) m =
             fold (\<lambda>k m. fill_poly G m (bridge_outline G (cs ! k) GroundLine))
               (filter (bridged ?gd ?bd) [0..<length cs]) m"
    by (rule fold_cong) (simp_all add: initial_resolver_slots)
  have p5: "burrow_mask s =
       fold (\<lambda>k m. fill_poly G m (bridge_outline G (cs ! k) GroundLine))
         (filter (\<lambda>k. k \<in> set (connected s) \<and> 1 < ?gd ! k) [0..<length cs]) m"
    unfolding flt fld [symmetric] using cf
    by (simp add: classified_from_def) (simp add: initial_resolver_def)
  from run p1 p2 p3 p4 p5 show ?thesis by blast
qed

lemma merge_chunks_fields:
  "connected (merge_chunks G k1 k2 s) = connected s @ [disconnected s ! k1]"
  "next_id (merge_chunks G k1 k2 s) = Suc (next_id s)"
  "length (burrow_chunks (merge_chunks G k1 k2 s)) = length (burrow_chunks s)"
  "burrow_mask (merge_chunks G k1 k2 s) =
     fill_poly G (burrow_mask s)
       (bridge_outline G (snd (burrow_chunks s ! (disconnected s ! k1)))
          (LinearRing (snd (burrow_chunks s ! (connected s ! k2)))))"
  by (simp_all add: merge_chunks_def connect_burrow_to_structure_def Let_def)

lemma merge_chunks_slot:
  assumes "disconnected s ! k1 \<noteq> connected s ! k2"
    and "disconnected s ! k1 < length (burrow_chunks s)"
    and "j < length (burrow_chunks s)"
  shows "burrow_chunks (merge_chunks G k1 k2 s) ! j =
     (if j = disconnected s ! k1 \<or>
         fst (burrow_chunks s ! j) = fst (burrow_chunks s ! (connected s ! k2))
      then merged_outline G (disconnected s ! k1) (connected s ! k2) s
      else burrow_chunks s ! j)"
  using assms
  by (simp add: merge_chunks_def connect_burrow_to_structure_def Let_def merged_outline_def
        nth_list_update)

lemma set_remove_nth:
  assumes "distinct xs" and "k < length xs"
  shows "set (take k xs @ drop (Suc k) xs) = set xs - {xs ! k}"
    and "distinct (take k xs @ drop (Suc k) xs)"
proof -
  have xs: "xs = take k xs @ xs ! k # drop (Suc k) xs"
    using assms(2) by (simp add: id_take_nth_drop [symmetric])
  have d: "distinct (take k xs @ xs ! k # drop (Suc k) xs)"
    using assms(1) xs by simp
  then show "distinct (take k xs @ drop (Suc k) xs)" by auto
  have "set xs = set (take k xs @ xs ! k # drop (Suc k) xs)" using xs by simp
  moreover have "xs ! k \<notin> set (take k xs @ drop (Suc k) xs)" using d by auto
  ultimately show "set (take k xs @ drop (Suc k) xs) = set xs - {xs ! k}" by auto
qed

lemma merge_chunks_inv:
  assumes inv: "resolver_inv A n s"
    and k1: "k1 < length (disconnected s)" and k2: "k2 < length (connected s)"
  shows "resolver_inv A n (merge_chunks G k1 k2 s)"
proof -
  define c1 where "c1 = disconnected s ! k1"
  define c2 where "c2 = connected s ! k2"
  define new where "new = merged_outline G c1 c2 s"
  define u where "u = merge_chunks G k1 k2 s"
  from inv have len: "length (burrow_chunks s) = n"
    and un: "set (connected s) \<union> set (disconnected s) = {0..<n}"
    and dj: "set (connected s) \<inter> set (disconnected s) = {}"
    and dd: "distinct (disconnected s)"
    and A: "A \<noteq> {}" "A \<subseteq> set (connected s)"
    and anc: "\<And>k. k \<in> set (connected s) \<Longrightarrow>
               \<exists>a\<in>A. fst (burrow_chunks s ! k) = fst (burrow_chunks s ! a)"
    and bnd: "\<And>k. k < n \<Longrightarrow> fst (burrow_chunks s ! k) < next_id s"
    and fn: "\<And>i j. i < n \<Longrightarrow> j < n \<Longrightarrow> fst (burrow_chunks s ! i) = fst (burrow_chunks s ! j)
               \<Longrightarrow> snd (burrow_chunks s ! i) = snd (burrow_chunks s ! j)"
    unfolding resolver_inv_def by blast+
  have c1D: "c1 \<in> set (disconnected s)" using k1 by (simp add: c1_def)
  have c2C: "c2 \<in> set (connected s)" using k2 by (simp add: c2_def)
  have ne: "c1 \<noteq> c2" using c1D c2C dj by auto
  have c1n: "c1 < n" using c1D un by auto
  have slot: "\<And>j. j < n \<Longrightarrow> burrow_chunks u ! j =
     (if j = c1 \<or> fst (burrow_chunks s ! j) = fst (burrow_chunks s ! c2) then new
      else burrow_chunks s ! j)"
    using merge_chunks_slot [of s k1 k2 _ G] ne c1n len
    by (simp add: u_def c1_def c2_def new_def)
  have fnew: "fst new = next_id s" by (simp add: new_def merged_outline_def)
  have i1: "length (burrow_chunks u) = n" by (simp add: u_def merge_chunks_fields len)
  have D': "set (disconnected u) = set (disconnected s) - {c1}" "distinct (disconnected u)"
    using set_remove_nth [OF dd k1] by (simp_all add: u_def merge_chunks_disconnected c1_def)
  have C': "set (connected u) = insert c1 (set (connected s))"
    by (simp add: u_def merge_chunks_fields c1_def)
  have i2: "set (connected u) \<union> set (disconnected u) = {0..<n}"
    using un c1D D' C' by auto
  have i3: "set (connected u) \<inter> set (disconnected u) = {}"
    using dj D' C' by auto
  have i5: "A \<subseteq> set (connected u)" using A C' by auto
  have Alt: "\<And>a. a \<in> A \<Longrightarrow> a < n \<and> a \<noteq> c1" using A un dj c1D by auto
  have Clt: "\<And>k. k \<in> set (connected s) \<Longrightarrow> k < n \<and> k \<noteq> c1" using un dj c1D by auto
  have i6: "\<forall>k\<in>set (connected u). \<exists>a\<in>A. fst (burrow_chunks u ! k) = fst (burrow_chunks u ! a)"
  proof
    fix k assume "k \<in> set (connected u)"
    then consider "k = c1" | "k \<in> set (connected s)" using C' by auto
    then show "\<exists>a\<in>A. fst (burrow_chunks u ! k) = fst (burrow_chunks u ! a)"
    proof cases
      case 1
      from anc [OF c2C] obtain a where a: "a \<in> A"
        "fst (burrow_chunks s ! c2) = fst (burrow_chunks s ! a)" by blast
      have "burrow_chunks u ! a = new" using slot [of a] Alt [OF a(1)] a(2) by simp
      moreover have "burrow_chunks u ! k = new" using slot [of c1] c1n 1 by simp
      ultimately show ?thesis using a(1) by auto
    next
      case 2
      from anc [OF 2] obtain a where a: "a \<in> A"
        "fst (burrow_chunks s ! k) = fst (burrow_chunks s ! a)" by blast
      have "fst (burrow_chunks u ! k) = fst (burrow_chunks u ! a)"
        using slot [of a] slot [of k] Alt [OF a(1)] Clt [OF 2] a(2) by simp
      then show ?thesis using a(1) by auto
    qed
  qed
  have old: "\<And>j. j < n \<Longrightarrow> burrow_chunks u ! j = new \<or>
       (burrow_chunks u ! j = burrow_chunks s ! j \<and> fst (burrow_chunks u ! j) < next_id s)"
    using slot bnd by simp
  have nu: "next_id u = Suc (next_id s)" by (simp add: u_def merge_chunks_fields)
  have i7: "\<forall>k<n. fst (burrow_chunks u ! k) < next_id u"
  proof (intro allI impI)
    fix k assume "k < n"
    from old [OF this] fnew nu show "fst (burrow_chunks u ! k) < next_id u"
      by auto
  qed
  have i8: "\<forall>i<n. \<forall>j<n. fst (burrow_chunks u ! i) = fst (burrow_chunks u ! j) \<longrightarrow>
          snd (burrow_chunks u ! i) = snd (burrow_chunks u ! j)"
  proof (intro allI impI)
    fix i j assume i: "i < n" and j: "j < n"
      and e: "fst (burrow_chunks u ! i) = fst (burrow_chunks u ! j)"
    from old [OF i] old [OF j] e fnew fn [OF i j]
    show "snd (burrow_chunks u ! i) = snd (burrow_chunks u ! j)" by auto
  qed
  show ?thesis
    unfolding resolver_inv_def u_def [symmetric]
    using i1 i2 i3 D'(2) A(1) i5 i6 i7 i8 by blast
qed

lemma np_argmin_Inr: "xs \<noteq> [] \<Longrightarrow> \<exists>k. np_argmin xs = Inr k"
  by (cases xs) simp_all

lemma merge_step_ok:
  assumes inv: "resolver_inv A n s" and ne: "disconnected s \<noteq> []"
  shows "\<exists>s'. merge_step G bd s = Inr s' \<and> resolver_inv A n s' \<and>
           Suc (length (disconnected s')) = length (disconnected s) \<and>
           set (disconnected s') \<subseteq> set (disconnected s) \<and>
           set (connected s) \<subseteq> set (connected s')"
proof -
  let ?dist = "concat (map (\<lambda>d. map (\<lambda>c. bd ! d ! c) (connected s)) (disconnected s))"
  from inv have cne: "connected s \<noteq> []" and dd: "distinct (disconnected s)"
    unfolding resolver_inv_def by auto
  have "length ?dist = length (disconnected s) * length (connected s)"
    by (rule length_concat_const)
  with cne ne have "?dist \<noteq> []" by (metis length_0_conv mult_is_0)
  from np_argmin_Inr [OF this] obtain flat where "np_argmin ?dist = Inr flat" by blast
  then have run: "merge_step G bd s =
      Inr (merge_chunks G (flat div length (connected s)) (flat mod length (connected s)) s)"
    by (simp add: merge_step_def)
  from merge_step_selects [OF run] obtain f
    where lt: "f < length (disconnected s) * length (connected s)"
      and eq: "merge_chunks G (flat div length (connected s)) (flat mod length (connected s)) s =
               merge_chunks G (f div length (connected s)) (f mod length (connected s)) s"
    by blast
  define k1 where "k1 = f div length (connected s)"
  define k2 where "k2 = f mod length (connected s)"
  have k1: "k1 < length (disconnected s)"
    using lt by (simp add: k1_def less_mult_imp_div_less)
  have k2: "k2 < length (connected s)"
    using cne by (simp add: k2_def)
  have run': "merge_step G bd s = Inr (merge_chunks G k1 k2 s)"
    using run eq by (simp add: k1_def k2_def)
  have "resolver_inv A n (merge_chunks G k1 k2 s)"
    by (rule merge_chunks_inv [OF inv k1 k2])
  moreover have "Suc (length (disconnected (merge_chunks G k1 k2 s))) = length (disconnected s)"
    using k1 by (simp add: merge_chunks_disconnected)
  moreover have "set (disconnected (merge_chunks G k1 k2 s)) \<subseteq> set (disconnected s)"
    using set_remove_nth(1) [OF dd k1] by (simp add: merge_chunks_disconnected)
  moreover have "set (connected s) \<subseteq> set (connected (merge_chunks G k1 k2 s))"
    by (auto simp: merge_chunks_fields)
  ultimately show ?thesis using run' by blast
qed

lemma merge_loop_runs:
  assumes "resolver_inv A n s"
  shows "\<exists>s'. merge_loop G bd s = Inr s' \<and>
           merge_iterate (length (disconnected s)) G bd s = Inr s' \<and>
           resolver_inv A n s' \<and> disconnected s' = []"
  using assms
proof (induction "length (disconnected s)" arbitrary: s)
  case 0
  then show ?case by simp
next
  case (Suc l)
  then have ne: "disconnected s \<noteq> []" by auto
  from merge_step_ok [OF Suc.prems ne, of G bd] obtain t
    where t: "merge_step G bd s = Inr t" "resolver_inv A n t"
      "Suc (length (disconnected t)) = length (disconnected s)"
    by blast
  from t(3) Suc.hyps(2) have l: "l = length (disconnected t)" by simp
  from Suc.hyps(1) [OF l t(2)] obtain s'
    where s': "merge_loop G bd t = Inr s'" "merge_iterate (length (disconnected t)) G bd t = Inr s'"
      "resolver_inv A n s'" "disconnected s' = []"
    by blast
  have "merge_loop G bd s = Inr s'"
    using ne t(1) s'(1) by (subst merge_loop.simps) simp
  moreover have "merge_iterate (length (disconnected s)) G bd s = Inr s'"
    using t(1) s'(2) t(3) [symmetric] by simp
  ultimately show ?case using s'(3,4) by blast
qed

lemma merge_iterate_shrinks:
  assumes "resolver_inv A n s" and "i \<le> length (disconnected s)"
  shows "\<exists>t. merge_iterate i G bd s = Inr t \<and> resolver_inv A n t \<and>
           length (disconnected t) = length (disconnected s) - i \<and>
           set (disconnected t) \<subseteq> set (disconnected s) \<and>
           set (connected s) \<subseteq> set (connected t)"
  using assms
proof (induction i arbitrary: s)
  case 0
  then show ?case by simp
next
  case (Suc i)
  then have ne: "disconnected s \<noteq> []" by auto
  from merge_step_ok [OF Suc.prems(1) ne, of G bd] obtain u
    where u: "merge_step G bd s = Inr u" "resolver_inv A n u"
      "Suc (length (disconnected u)) = length (disconnected s)"
      "set (disconnected u) \<subseteq> set (disconnected s)"
      "set (connected s) \<subseteq> set (connected u)"
    by blast
  have "i \<le> length (disconnected u)" using u(3) Suc.prems(2) by simp
  from Suc.IH [OF u(2) this] obtain t
    where t: "merge_iterate i G bd u = Inr t"
      "length (disconnected t) = length (disconnected u) - i"
      "resolver_inv A n t"
      "set (disconnected t) \<subseteq> set (disconnected u)"
      "set (connected u) \<subseteq> set (connected t)"
    by blast
  have "merge_iterate (Suc i) G bd s = Inr t" using u(1) t(1) by simp
  moreover have "length (disconnected t) = length (disconnected s) - Suc i"
    using t(2) u(3) by simp
  ultimately show ?case using t(3,4,5) u(4,5) by blast
qed

lemma ids_ok_nth:
  assumes "ids_ok s" and "length (burrow_chunks s) = n"
  shows "\<forall>k<n. fst (burrow_chunks s ! k) < next_id s"
    and "\<forall>i<n. \<forall>j<n. fst (burrow_chunks s ! i) = fst (burrow_chunks s ! j) \<longrightarrow>
          snd (burrow_chunks s ! i) = snd (burrow_chunks s ! j)"
proof -
  from assms(1) have d: "distinct (map fst (burrow_chunks s))"
    and b: "\<forall>p\<in>set (burrow_chunks s). fst p < next_id s"
    by (simp_all add: ids_ok_def)
  show "\<forall>k<n. fst (burrow_chunks s ! k) < next_id s"
    using b assms(2) by auto
  show "\<forall>i<n. \<forall>j<n. fst (burrow_chunks s ! i) = fst (burrow_chunks s ! j) \<longrightarrow>
          snd (burrow_chunks s ! i) = snd (burrow_chunks s ! j)"
  proof (intro allI impI)
    fix i j assume i: "i < n" and j: "j < n"
      and e: "fst (burrow_chunks s ! i) = fst (burrow_chunks s ! j)"
    have "i = j"
      using d i j e assms(2) nth_eq_iff_index_eq [of "map fst (burrow_chunks s)" i j] by simp
    then show "snd (burrow_chunks s ! i) = snd (burrow_chunks s ! j)" by simp
  qed
qed

lemma resolver_entry_inv:
  assumes "cs \<noteq> []"
  shows "\<exists>s2. resolver_entry G m cs = Inr s2 \<and> connected s2 = ground_linked G cs \<and>
           length (disconnected s2) < length cs \<and>
           resolver_inv (set (ground_linked G cs)) (length cs) s2"
proof -
  let ?gd = "ground_dist G cs" and ?bd = "burrow_dist G cs" and ?s0 = "initial_resolver m cs"
  let ?n = "length cs"
  let ?P = "closest_to_ground ?gd ?bd"
  from classified_result [of G m cs] obtain s1 where run: "classified G m cs = Inr s1"
    and cf: "classified_from G ?gd ?bd [0..<?n] ?s0 s1"
    by blast
  have con: "connected s1 = filter ?P [0..<?n]"
    and dis: "disconnected s1 = filter (\<lambda>k. \<not> ?P k) [0..<?n]"
    and len: "length (burrow_chunks s1) = ?n"
    and ok: "ids_ok s1"
    using cf by (simp_all add: classified_from_def initial_resolver_slots)
       (simp_all add: initial_resolver_def)
  show ?thesis
  proof (cases "filter ?P [0..<?n] = []")
    case False
    have gl: "ground_linked G cs = connected s1"
      using False by (simp add: ground_linked_def con)
    have force: "force_ground_link G ?gd s1 = Inr s1"
      using False con by (simp add: force_ground_link_def)
    have part: "set (connected s1) \<union> set (disconnected s1) = {0..<?n}"
      by (auto simp: con dis)
    have entry: "resolver_entry G m cs = Inr s1"
      using run force part by (simp add: resolver_entry_def)
    have "length (filter ?P [0..<?n]) + length (filter (\<lambda>k. \<not> ?P k) [0..<?n]) = ?n"
      using sum_length_filter_compl [of ?P "[0..<?n]"] by simp
    moreover have "0 < length (filter ?P [0..<?n])" using False by simp
    ultimately have short: "length (disconnected s1) < ?n" unfolding dis by linarith
    have dj: "set (connected s1) \<inter> set (disconnected s1) = {}"
      by (auto simp: con dis)
    have dd: "distinct (disconnected s1)" by (simp add: dis)
    have ne: "set (connected s1) \<noteq> {}" using False con by (metis set_empty)
    have anc: "\<forall>k\<in>set (connected s1). \<exists>a\<in>set (connected s1).
                 fst (burrow_chunks s1 ! k) = fst (burrow_chunks s1 ! a)"
      by blast
    have "resolver_inv (set (connected s1)) ?n s1"
      unfolding resolver_inv_def
      using len part dj dd ne anc ids_ok_nth [OF ok len] by blast
    with entry gl short show ?thesis by simp
  next
    case True
    then have none: "\<forall>k<?n. \<not> ?P k" by (auto simp: filter_empty_conv)
    have dis1: "disconnected s1 = [0..<?n]"
      unfolding dis using none by (simp add: filter_id_conv)
    have con1: "connected s1 = []" using True con by simp
    have "?gd \<noteq> []" using assms by (simp add: ground_dist_def)
    from np_argmin_Inr [OF this] obtain k where k: "np_argmin ?gd = Inr k" by blast
    have kn: "k < ?n" using np_argmin_range [OF k] by (simp add: ground_dist_def)
    define t where "t = connect_to_ground G k s1"
    define s2 where "s2 = t\<lparr>connected := connected t @ [k],
                              disconnected := remove1 k (disconnected t)\<rparr>"
    have tf: "connected t = []" "disconnected t = [0..<?n]" "length (burrow_chunks t) = ?n"
      by (simp_all add: t_def connect_to_ground_fields con1 dis1 len)
    have tok: "ids_ok t"
      unfolding t_def by (rule connect_to_ground_ids_ok [OF ok]) (simp add: len kn)
    have force: "force_ground_link G ?gd s1 = Inr s2"
      using k kn tf con1 by (simp add: force_ground_link_def s2_def t_def [symmetric] Let_def)
    have s2f: "connected s2 = [k]" "disconnected s2 = remove1 k [0..<?n]"
      "burrow_chunks s2 = burrow_chunks t" "next_id s2 = next_id t"
      by (simp_all add: s2_def tf)
    have part: "set (connected s2) \<union> set (disconnected s2) = {0..<?n}"
      using kn by (auto simp: s2f)
    have entry: "resolver_entry G m cs = Inr s2"
      using run force part by (simp add: resolver_entry_def)
    have gl: "ground_linked G cs = [k]"
      using True k by (simp add: ground_linked_def)
    have short: "length (disconnected s2) < ?n"
      using kn by (simp add: s2f length_remove1)
    have s2ok: "ids_ok s2" using tok by (simp add: ids_ok_def s2f)
    have len2: "length (burrow_chunks s2) = ?n" by (simp add: s2f tf)
    have dj: "set (connected s2) \<inter> set (disconnected s2) = {}"
      by (simp add: s2f)
    have dd: "distinct (disconnected s2)" by (simp add: s2f)
    have ne: "{k} \<noteq> {}" by simp
    have sub: "{k} \<subseteq> set (connected s2)" by (simp add: s2f)
    have anc: "\<forall>j\<in>set (connected s2). \<exists>a\<in>{k}.
                 fst (burrow_chunks s2 ! j) = fst (burrow_chunks s2 ! a)"
      by (simp add: s2f)
    have "resolver_inv {k} ?n s2"
      unfolding resolver_inv_def
      using len2 part dj dd ne sub anc ids_ok_nth [OF s2ok len2] by blast
    with entry gl short s2f(1) show ?thesis by simp
  qed
qed

lemma unique_from_subset: "set (unique_from seen bcs) \<subseteq> snd ` set bcs"
  by (induction bcs arbitrary: seen) auto

lemma unique_based_on_id_subset: "set (unique_based_on_id bcs) \<subseteq> snd ` set bcs"
  by (simp add: unique_based_on_id_def unique_from_subset)

lemma ground_linked_cases:
  assumes "a \<in> set (ground_linked G cs)"
  shows "a < length cs \<and>
     ((\<forall>j<length cs. ground_dist G cs ! a < burrow_dist G cs ! a ! j) \<or>
      ((\<forall>k<length cs. \<not> (\<forall>j<length cs. ground_dist G cs ! k < burrow_dist G cs ! k ! j)) \<and>
       np_argmin (ground_dist G cs) = Inr a))"
proof (cases "filter (closest_to_ground (ground_dist G cs) (burrow_dist G cs)) [0..<length cs] = []")
  case False
  with assms have "a < length cs \<and> closest_to_ground (ground_dist G cs) (burrow_dist G cs) a"
    by (simp add: ground_linked_def)
  then show ?thesis using closest_to_ground_iff [of a cs G] by blast
next
  case True
  then have none: "\<forall>k<length cs. \<not> closest_to_ground (ground_dist G cs) (burrow_dist G cs) k"
    by (auto simp: filter_empty_conv)
  from True assms have k: "np_argmin (ground_dist G cs) = Inr a"
    by (simp add: ground_linked_def split: sum.splits)
  have "a < length cs" using np_argmin_range [OF k] by (simp add: ground_dist_def)
  with none k show ?thesis using closest_to_ground_iff [of _ cs G] by blast
qed

text \<open>
  C1. For a non-empty list of chunks \<^verbatim>\<open>connect_burrow_chunks\<close> returns, without an
  exception. At the entry of the merge loop the list \<open>connected\<close> is not empty and holds
  only chunks that were classified as closest to the ground or, when there was none, the
  one chunk forced to the ground. When the loop has ended, \<open>disconnected\<close> is empty and
  every chunk is in \<open>connected\<close>; every slot of \<^verbatim>\<open>burrow_chunks\<close> refers to the same
  object as the slot of one of those ground-linked chunks (it was merged into it,
  directly or through a chain of merges), and every burrow returned is built from the
  outline held by the slot of a ground-linked chunk.
\<close>

theorem every_burrow_is_ground_connected:
  fixes G :: "('o, 'm, 'd::{linorder,order_top,one}, 'b) geometry"
  assumes "cs \<noteq> []"
  shows "\<exists>s2 s burrows.
     resolver_entry G m cs = Inr s2 \<and>
     merge_loop G (burrow_dist G cs) s2 = Inr s \<and>
     connect_burrow_chunks G m cs = Inr (burrows, burrow_mask s) \<and>
     burrows = map (make_burrow G) (unique_based_on_id (burrow_chunks s)) \<and>
     disconnected s = [] \<and> set (connected s) = {0..<length cs} \<and>
     connected s2 \<noteq> [] \<and>
     (\<forall>a\<in>set (connected s2). a < length cs \<and>
        ((\<forall>j<length cs. ground_dist G cs ! a < burrow_dist G cs ! a ! j) \<or>
         ((\<forall>k<length cs. \<not> (\<forall>j<length cs. ground_dist G cs ! k < burrow_dist G cs ! k ! j)) \<and>
          np_argmin (ground_dist G cs) = Inr a))) \<and>
     (\<forall>k<length cs. \<exists>a\<in>set (connected s2). burrow_chunks s ! k = burrow_chunks s ! a) \<and>
     (\<forall>b\<in>set burrows. \<exists>a\<in>set (connected s2). b = make_burrow G (snd (burrow_chunks s ! a)))"
proof -
  let ?n = "length cs" and ?A = "set (ground_linked G cs)"
  from resolver_entry_inv [OF assms, of G m] obtain s2
    where entry: "resolver_entry G m cs = Inr s2" and con2: "connected s2 = ground_linked G cs"
      and inv2: "resolver_inv ?A ?n s2"
    by blast
  from merge_loop_runs [OF inv2, of G "burrow_dist G cs"] obtain s
    where loop: "merge_loop G (burrow_dist G cs) s2 = Inr s"
      and inv: "resolver_inv ?A ?n s" and dis: "disconnected s = []"
    by blast
  define burrows where "burrows = map (make_burrow G) (unique_based_on_id (burrow_chunks s))"
  have res: "connect_burrow_chunks G m cs = Inr (burrows, burrow_mask s)"
    using assms entry loop by (simp add: connect_burrow_chunks_def burrows_def)
  from inv have len: "length (burrow_chunks s) = ?n"
    and un: "set (connected s) \<union> set (disconnected s) = {0..<?n}"
    and Ane: "?A \<noteq> {}" and Asub': "?A \<subseteq> set (connected s)"
    and anc': "\<forall>k\<in>set (connected s). \<exists>a\<in>?A.
                 fst (burrow_chunks s ! k) = fst (burrow_chunks s ! a)"
    and fn: "\<And>i j. i < ?n \<Longrightarrow> j < ?n \<Longrightarrow> fst (burrow_chunks s ! i) = fst (burrow_chunks s ! j)
               \<Longrightarrow> snd (burrow_chunks s ! i) = snd (burrow_chunks s ! j)"
    unfolding resolver_inv_def by blast+
  have all: "set (connected s) = {0..<?n}" using un dis by simp
  have Asub: "?A \<subseteq> {0..<?n}" using Asub' all by simp
  have anc: "\<And>k. k < ?n \<Longrightarrow> \<exists>a\<in>?A. fst (burrow_chunks s ! k) = fst (burrow_chunks s ! a)"
    using anc' all by simp
  have same: "\<forall>k<?n. \<exists>a\<in>set (connected s2). burrow_chunks s ! k = burrow_chunks s ! a"
  proof (intro allI impI)
    fix k assume k: "k < ?n"
    from anc [OF k] obtain a where a: "a \<in> ?A"
      "fst (burrow_chunks s ! k) = fst (burrow_chunks s ! a)" by blast
    from a(1) Asub have "a < ?n" by auto
    from fn [OF k this a(2)] a(2) have "burrow_chunks s ! k = burrow_chunks s ! a"
      by (simp add: prod_eq_iff)
    with a(1) con2 show "\<exists>a\<in>set (connected s2). burrow_chunks s ! k = burrow_chunks s ! a"
      by auto
  qed
  have each: "\<forall>b\<in>set burrows. \<exists>a\<in>set (connected s2). b = make_burrow G (snd (burrow_chunks s ! a))"
  proof
    fix b assume "b \<in> set burrows"
    then obtain p where p: "p \<in> set (burrow_chunks s)" "b = make_burrow G (snd p)"
      using unique_based_on_id_subset [of "burrow_chunks s"] by (auto simp: burrows_def)
    from p(1) len obtain k where k: "k < ?n" "p = burrow_chunks s ! k"
      by (auto simp: in_set_conv_nth)
    from same k(1) obtain a where a: "a \<in> set (connected s2)"
      "burrow_chunks s ! k = burrow_chunks s ! a" by blast
    have "b = make_burrow G (snd (burrow_chunks s ! a))"
      using p(2) k(2) a(2) by simp
    with a(1) show "\<exists>a\<in>set (connected s2). b = make_burrow G (snd (burrow_chunks s ! a))"
      by blast
  qed
  have ne2: "connected s2 \<noteq> []" using Ane con2 by auto
  have kinds: "\<forall>a\<in>set (connected s2). a < length cs \<and>
        ((\<forall>j<length cs. ground_dist G cs ! a < burrow_dist G cs ! a ! j) \<or>
         ((\<forall>k<length cs. \<not> (\<forall>j<length cs. ground_dist G cs ! k < burrow_dist G cs ! k ! j)) \<and>
          np_argmin (ground_dist G cs) = Inr a))"
    unfolding con2 using ground_linked_cases [of _ G cs] by blast
  from entry loop res burrows_def dis all ne2 kinds same each
  have "resolver_entry G m cs = Inr s2 \<and>
     merge_loop G (burrow_dist G cs) s2 = Inr s \<and>
     connect_burrow_chunks G m cs = Inr (burrows, burrow_mask s) \<and>
     burrows = map (make_burrow G) (unique_based_on_id (burrow_chunks s)) \<and>
     disconnected s = [] \<and> set (connected s) = {0..<length cs} \<and>
     connected s2 \<noteq> [] \<and>
     (\<forall>a\<in>set (connected s2). a < length cs \<and>
        ((\<forall>j<length cs. ground_dist G cs ! a < burrow_dist G cs ! a ! j) \<or>
         ((\<forall>k<length cs. \<not> (\<forall>j<length cs. ground_dist G cs ! k < burrow_dist G cs ! k ! j)) \<and>
          np_argmin (ground_dist G cs) = Inr a))) \<and>
     (\<forall>k<length cs. \<exists>a\<in>set (connected s2). burrow_chunks s ! k = burrow_chunks s ! a) \<and>
     (\<forall>b\<in>set burrows. \<exists>a\<in>set (connected s2). b = make_burrow G (snd (burrow_chunks s ! a)))"
    by (intro conjI)
  then show ?thesis by (intro exI)
qed

text \<open>
  C4. For a list of \<open>N > 0\<close> chunks the merge loop of \<^verbatim>\<open>connect_burrow_chunks\<close> ends
  without an exception after exactly as many iterations as there were disconnected
  chunks at its entry, which is fewer than \<open>N\<close>: the result of the loop is the result of
  that many applications of its body, and it has no disconnected chunk left. Every
  iteration that is run removes exactly one chunk from \<open>disconnected\<close> and adds none.
\<close>

theorem merge_loop_terminates:
  fixes G :: "('o, 'm, 'd::{linorder,order_top,one}, 'b) geometry"
  assumes "cs \<noteq> []"
  shows "\<exists>s2 s.
     resolver_entry G m cs = Inr s2 \<and>
     length (disconnected s2) < length cs \<and>
     merge_loop G (burrow_dist G cs) s2 = Inr s \<and>
     merge_iterate (length (disconnected s2)) G (burrow_dist G cs) s2 = Inr s \<and>
     disconnected s = [] \<and>
     (\<forall>i<length (disconnected s2). \<exists>t u.
        merge_iterate i G (burrow_dist G cs) s2 = Inr t \<and>
        merge_step G (burrow_dist G cs) t = Inr u \<and>
        length (disconnected t) = length (disconnected s2) - i \<and>
        Suc (length (disconnected u)) = length (disconnected t) \<and>
        set (disconnected u) \<subseteq> set (disconnected t))"
proof -
  let ?n = "length cs" and ?A = "set (ground_linked G cs)" and ?bd = "burrow_dist G cs"
  from resolver_entry_inv [OF assms, of G m] obtain s2
    where entry: "resolver_entry G m cs = Inr s2" and short: "length (disconnected s2) < ?n"
      and inv2: "resolver_inv ?A ?n s2"
    by blast
  from merge_loop_runs [OF inv2, of G ?bd] obtain s
    where loop: "merge_loop G ?bd s2 = Inr s"
      and iter: "merge_iterate (length (disconnected s2)) G ?bd s2 = Inr s"
      and dis: "disconnected s = []"
    by blast
  have steps: "\<forall>i<length (disconnected s2). \<exists>t u.
        merge_iterate i G ?bd s2 = Inr t \<and>
        merge_step G ?bd t = Inr u \<and>
        length (disconnected t) = length (disconnected s2) - i \<and>
        Suc (length (disconnected u)) = length (disconnected t) \<and>
        set (disconnected u) \<subseteq> set (disconnected t)"
  proof (intro allI impI)
    fix i assume i: "i < length (disconnected s2)"
    then have "i \<le> length (disconnected s2)" by simp
    from merge_iterate_shrinks [OF inv2 this, of G ?bd] obtain t
      where t: "merge_iterate i G ?bd s2 = Inr t" "resolver_inv ?A ?n t"
        "length (disconnected t) = length (disconnected s2) - i"
      by blast
    from t(3) i have "disconnected t \<noteq> []" by auto
    from merge_step_ok [OF t(2) this, of G ?bd] t(1,3)
    show "\<exists>t u. merge_iterate i G ?bd s2 = Inr t \<and>
        merge_step G ?bd t = Inr u \<and>
        length (disconnected t) = length (disconnected s2) - i \<and>
        Suc (length (disconnected u)) = length (disconnected t) \<and>
        set (disconnected u) \<subseteq> set (disconnected t)"
      by blast
  qed
  from entry short loop iter dis steps
  have "resolver_entry G m cs = Inr s2 \<and>
     length (disconnected s2) < length cs \<and>
     merge_loop G (burrow_dist G cs) s2 = Inr s \<and>
     merge_iterate (length (disconnected s2)) G (burrow_dist G cs) s2 = Inr s \<and>
     disconnected s = [] \<and>
     (\<forall>i<length (disconnected s2). \<exists>t u.
        merge_iterate i G (burrow_dist G cs) s2 = Inr t \<and>
        merge_step G (burrow_dist G cs) t = Inr u \<and>
        length (disconnected t) = length (disconnected s2) - i \<and>
        Suc (length (disconnected u)) = length (disconnected t) \<and>
        set (disconnected u) \<subseteq> set (disconnected t))"
    by (intro conjI)
  then show ?thesis by (intro exI)
qed

theorem every_burrow_is_ground_connected_witness:
  "three_chunks \<noteq> [] \<and>
   connect_burrow_chunks interval_geometry [] three_chunks = Inr ([(0, 10)], [(2, 6), (6, 10)]) \<and>
   (\<exists>s2 s burrows.
     resolver_entry interval_geometry [] three_chunks = Inr s2 \<and>
     merge_loop interval_geometry (burrow_dist interval_geometry three_chunks) s2 = Inr s \<and>
     connect_burrow_chunks interval_geometry [] three_chunks = Inr (burrows, burrow_mask s) \<and>
     burrows = map (make_burrow interval_geometry) (unique_based_on_id (burrow_chunks s)) \<and>
     disconnected s = [] \<and> set (connected s) = {0..<length three_chunks} \<and>
     connected s2 \<noteq> [] \<and>
     (\<forall>a\<in>set (connected s2). a < length three_chunks \<and>
        ((\<forall>j<length three_chunks. ground_dist interval_geometry three_chunks ! a
              < burrow_dist interval_geometry three_chunks ! a ! j) \<or>
         ((\<forall>k<length three_chunks. \<not> (\<forall>j<length three_chunks.
               ground_dist interval_geometry three_chunks ! k
                 < burrow_dist interval_geometry three_chunks ! k ! j)) \<and>
          np_argmin (ground_dist interval_geometry three_chunks) = Inr a))) \<and>
     (\<forall>k<length three_chunks. \<exists>a\<in>set (connected s2).
         burrow_chunks s ! k = burrow_chunks s ! a) \<and>
     (\<forall>b\<in>set burrows. \<exists>a\<in>set (connected s2).
         b = make_burrow interval_geometry (snd (burrow_chunks s ! a))))"
proof -
  have ne: "three_chunks \<noteq> []" by (simp add: three_chunks_def)
  have run: "connect_burrow_chunks interval_geometry [] three_chunks =
               Inr ([(0, 10)], [(2, 6), (6, 10)])"
    by code_simp
  show ?thesis
    by (rule conjI [OF ne conjI [OF run every_burrow_is_ground_connected [OF ne]]])
qed

theorem merge_loop_terminates_witness:
  "three_chunks \<noteq> [] \<and>
   (\<exists>s2 s.
     resolver_entry interval_geometry [] three_chunks = Inr s2 \<and>
     length (disconnected s2) < length three_chunks \<and>
     merge_loop interval_geometry (burrow_dist interval_geometry three_chunks) s2 = Inr s \<and>
     merge_iterate (length (disconnected s2)) interval_geometry
       (burrow_dist interval_geometry three_chunks) s2 = Inr s \<and>
     disconnected s = [] \<and>
     (\<forall>i<length (disconnected s2). \<exists>t u.
        merge_iterate i interval_geometry (burrow_dist interval_geometry three_chunks) s2 = Inr t \<and>
        merge_step interval_geometry (burrow_dist interval_geometry three_chunks) t = Inr u \<and>
        length (disconnected t) = length (disconnected s2) - i \<and>
        Suc (length (disconnected u)) = length (disconnected t) \<and>
        set (disconnected u) \<subseteq> set (disconnected t)))"
proof -
  have ne: "three_chunks \<noteq> []" by (simp add: three_chunks_def)
  show ?thesis
    by (rule conjI [OF ne merge_loop_terminates [OF ne]])
qed

text \<open>
  A chunk at depth 2 to 3 and one at depth 10 to 12 on a line whose ground is at 0: the
  first is closest to the ground and more than \<open>1\<close> away, so it is bridged.
\<close>

theorem classification_bridges_beyond_unit_distance_witness:
  "(case classified interval_geometry [] two_chunks of
      Inl e \<Rightarrow> False
    | Inr s \<Rightarrow> connected s = [0] \<and> disconnected s = [1] \<and>
        burrow_chunks s = [(2, (0, 3)), (1, (10, 12))] \<and> burrow_mask s = [(0, 3)]) \<and>
   (\<exists>s. classified interval_geometry [] two_chunks = Inr s \<and>
     (\<forall>k<length two_chunks. (k \<in> set (connected s)) =
        (\<forall>j<length two_chunks.
            ground_dist interval_geometry two_chunks ! k
              < burrow_dist interval_geometry two_chunks ! k ! j)) \<and>
     (\<forall>k<length two_chunks. (k \<in> set (disconnected s)) = (k \<notin> set (connected s))) \<and>
     (\<forall>k<length two_chunks.
        k \<in> set (connected s) \<and> 1 < ground_dist interval_geometry two_chunks ! k \<longrightarrow>
        snd (burrow_chunks s ! k) =
          bridge_outline interval_geometry (two_chunks ! k) GroundLine \<and>
        length two_chunks \<le> fst (burrow_chunks s ! k)) \<and>
     (\<forall>k<length two_chunks.
        \<not> (k \<in> set (connected s) \<and> 1 < ground_dist interval_geometry two_chunks ! k) \<longrightarrow>
        burrow_chunks s ! k = (k, two_chunks ! k)) \<and>
     burrow_mask s =
       fold (\<lambda>k m. fill_poly interval_geometry m
                (bridge_outline interval_geometry (two_chunks ! k) GroundLine))
         (filter (\<lambda>k. k \<in> set (connected s) \<and>
                       1 < ground_dist interval_geometry two_chunks ! k)
            [0..<length two_chunks]) [])"
proof -
  have run: "(case classified interval_geometry [] two_chunks of
      Inl e \<Rightarrow> False
    | Inr s \<Rightarrow> connected s = [0] \<and> disconnected s = [1] \<and>
        burrow_chunks s = [(2, (0, 3)), (1, (10, 12))] \<and> burrow_mask s = [(0, 3)])"
    by code_simp
  show ?thesis
    by (rule conjI [OF run classification_bridges_beyond_unit_distance])
qed

text \<open>
  The claim as stated has every connected chunk at a non-zero ground distance bridged.
  A single chunk at depth 1 to 5 is classified as connected, its ground distance \<open>1\<close> is
  not zero, and it is left as it is: its slot keeps the object handed in and nothing is
  painted, although bridging it would give the outline from 0 to 5.
\<close>

theorem unit_distance_chunk_not_bridged:
  "(case classified interval_geometry [] [(1, 5)] of
      Inl e \<Rightarrow> False
    | Inr s \<Rightarrow> connected s = [0] \<and> burrow_chunks s = [(0, (1, 5))] \<and> burrow_mask s = []) \<and>
   ground_dist interval_geometry [(1, 5)] ! 0 = 1 \<and> (1 :: enat) \<noteq> 0 \<and>
   bridge_outline interval_geometry (1, 5) GroundLine = (0, 5)"
  by code_simp

section \<open>Theorems about the burrow mask\<close>

lemma enlarge_burrows_length:
  assumes "length (morph_close M (map (\<lambda>(b, m). if m = 1 then 1 else b)
             (zip bmask (morph_open M flagged)))) = length bmask"
    and "length ground_mask = length bmask"
  shows "length (enlarge_burrows M ground_mask flagged bmask) = length bmask"
  using assms by (simp add: enlarge_burrows_def Let_def)

lemma enlarge_burrows_keeps:
  assumes cl: "\<And>img. length (morph_close M img) = length img"
    and ol: "\<And>img. length (morph_open M img) = length img"
    and ext: "\<And>img p. p < length img \<Longrightarrow> img ! p \<le> morph_close M img ! p"
    and lg: "length ground_mask = length bmask" and lf: "length flagged = length bmask"
    and p: "p < length bmask" and set: "bmask ! p \<noteq> 0" and gr: "ground_mask ! p \<noteq> 0"
  shows "enlarge_burrows M ground_mask flagged bmask ! p \<noteq> 0"
proof -
  define bmask1 where
    "bmask1 = map (\<lambda>(b, m). if m = 1 then 1 else b) (zip bmask (morph_open M flagged))"
  have l1: "length bmask1 = length bmask" by (simp add: bmask1_def ol lf)
  have "bmask1 ! p \<noteq> 0" using p set by (simp add: bmask1_def ol lf)
  moreover have "bmask1 ! p \<le> morph_close M bmask1 ! p" using ext [of p bmask1] p l1 by simp
  ultimately have "morph_close M bmask1 ! p \<noteq> 0" by (metis word_le_0_iff)
  then show ?thesis
    using p gr lg by (simp add: enlarge_burrows_def Let_def bmask1_def [symmetric] cl l1)
qed

text \<open>
  C9. Let the closing of \<^verbatim>\<open>cv2.morphologyEx\<close> be extensive (no pixel value gets
  smaller) and let both morphological operations keep the size of the raster, as they do
  for a symmetric kernel. Then every call of \<^verbatim>\<open>update_burrow_mask\<close>, aborted or not,
  keeps the size of the burrow mask, and every pixel that was set before the call and
  lies in the ground region is still set after it: a set pixel can only be cleared where
  the ground mask is zero.
\<close>

theorem update_burrow_mask_keeps_ground_pixels:
  assumes cl: "\<forall>img. length (morph_close M img) = length img"
    and ol: "\<forall>img. length (morph_open M img) = length img"
    and ext: "\<forall>img p. p < length img \<longrightarrow> img ! p \<le> morph_close M img ! p"
    and lb: "length background_avg = length frame" and lm: "length bmask = length frame"
  shows "length (update_burrow_mask M below background_avg change_threshold frame bmask)
           = length bmask \<and>
         (\<forall>p<length bmask. bmask ! p \<noteq> 0 \<and> below p \<longrightarrow>
            update_burrow_mask M below background_avg change_threshold frame bmask ! p \<noteq> 0)"
proof -
  let ?gm = "get_ground_mask below (length frame)"
  let ?fl = "excavated background_avg frame change_threshold"
  have lg: "length ?gm = length bmask" by (simp add: get_ground_mask_def lm)
  have lf: "length ?fl = length bmask" by (simp add: excavated_def lb lm)
  have gnz: "\<And>p. p < length bmask \<Longrightarrow> below p \<Longrightarrow> ?gm ! p \<noteq> 0"
    by (simp add: get_ground_mask_def lm)
  have len: "length (enlarge_burrows M ?gm ?fl bmask) = length bmask"
    by (rule enlarge_burrows_length) (simp_all add: cl ol lf lg)
  have keep: "\<And>p. p < length bmask \<Longrightarrow> bmask ! p \<noteq> 0 \<Longrightarrow> below p \<Longrightarrow>
                enlarge_burrows M ?gm ?fl bmask ! p \<noteq> 0"
    using enlarge_burrows_keeps [of M ?gm bmask ?fl] cl ol ext lg lf gnz by blast
  show ?thesis
    using len keep by (simp add: update_burrow_mask_def Let_def)
qed

lemma row_morphology_fields:
  "morph_open row_morphology = row_open" "morph_close row_morphology = row_close"
  by (simp_all add: row_morphology_def)

lemma row_close_extensive: "p < length img \<Longrightarrow> img ! p \<le> row_close img ! p"
  by (simp add: row_close_def)

lemma update_at_half_of_ground:
  "ground_pixels (get_ground_mask (\<lambda>p. 2 \<le> p) 6) = 4 \<and>
   np_sum (excavated [100, 100, 100, 100, 100, 100] [100, 100, 100, 100, 50, 50] 10) = 2 \<and>
   np_sum (get_ground_mask (\<lambda>p. 2 \<le> p) 6) = 1020 \<and>
   update_burrow_mask row_morphology (\<lambda>p. 2 \<le> p) [100, 100, 100, 100, 100, 100] 10
      [100, 100, 100, 100, 50, 50] [0, 0, 0, 0, 0, 0] = [0, 0, 0, 0, 1, 1]"
  by code_simp

lemma np_sum_fill:
  "np_sum (map (\<lambda>p. if below p then 255 else 0) ps) =
     255 * ground_pixels (map (\<lambda>p. if below p then 255 else 0) ps)"
  by (induction ps) (simp_all add: np_sum_def ground_pixels_def)

lemma np_sum_ground_mask:
  "np_sum (get_ground_mask below n) = 255 * ground_pixels (get_ground_mask below n)"
  by (simp add: get_ground_mask_def np_sum_fill)

lemma update_burrow_mask_abort_threshold:
  "update_burrow_mask M below background_avg change_threshold frame bmask =
     (if real (np_sum (excavated background_avg frame change_threshold))
           > 25.5 * real (ground_pixels (get_ground_mask below (length frame)))
      then bmask
      else enlarge_burrows M (get_ground_mask below (length frame))
             (excavated background_avg frame change_threshold) bmask)"
  by (simp add: update_burrow_mask_def Let_def np_sum_ground_mask)

theorem update_burrow_mask_keeps_ground_pixels_witness:
  "length [100, 100, 100, 100, 100 :: real] = length [100, 100, 100, 100, 50 :: real] \<and>
   length [1, 1, 0, 1, 0 :: 8 word] = length [100, 100, 100, 100, 50 :: real] \<and>
   update_burrow_mask row_morphology (\<lambda>p. 1 \<le> p) [100, 100, 100, 100, 100] 10
      [100, 100, 100, 100, 50] [1, 1, 0, 1, 0] = [0, 1, 1, 1, 0] \<and>
   [1, 1, 0, 1, 0 :: 8 word] ! 3 \<noteq> 0 \<and> (1 :: nat) \<le> 3 \<and>
   update_burrow_mask row_morphology (\<lambda>p. 1 \<le> p) [100, 100, 100, 100, 100] 10
      [100, 100, 100, 100, 50] [1, 1, 0, 1, 0] ! 3 \<noteq> 0"
proof -
  have cl: "\<forall>img. length (morph_close row_morphology img) = length img"
    by (simp add: row_morphology_fields row_close_def)
  have ol: "\<forall>img. length (morph_open row_morphology img) = length img"
    by (simp add: row_morphology_fields row_open_def)
  have ext: "\<forall>img p. p < length img \<longrightarrow> img ! p \<le> morph_close row_morphology img ! p"
    by (simp add: row_morphology_fields row_close_extensive)
  have lb: "length [100, 100, 100, 100, 100 :: real] = length [100, 100, 100, 100, 50 :: real]"
    by simp
  have lm: "length [1, 1, 0, 1, 0 :: 8 word] = length [100, 100, 100, 100, 50 :: real]"
    by simp
  have run: "update_burrow_mask row_morphology (\<lambda>p. 1 \<le> p) [100, 100, 100, 100, 100] 10
      [100, 100, 100, 100, 50] [1, 1, 0, 1, 0] = [0, 1, 1, 1, 0]"
    by code_simp
  have set3: "[1, 1, 0, 1, 0 :: 8 word] ! 3 \<noteq> 0" by simp
  from update_burrow_mask_keeps_ground_pixels [OF cl ol ext lb lm, of "\<lambda>p. 1 \<le> p" 10]
  have "\<forall>p<length [1, 1, 0, 1, 0 :: 8 word]. [1, 1, 0, 1, 0 :: 8 word] ! p \<noteq> 0 \<and> 1 \<le> p \<longrightarrow>
          update_burrow_mask row_morphology (\<lambda>p. 1 \<le> p) [100, 100, 100, 100, 100] 10
            [100, 100, 100, 100, 50] [1, 1, 0, 1, 0] ! p \<noteq> 0"
    by (rule conjunct2)
  from spec [OF this, of 3] set3
  have kept: "update_burrow_mask row_morphology (\<lambda>p. 1 \<le> p) [100, 100, 100, 100, 100] 10
      [100, 100, 100, 100, 50] [1, 1, 0, 1, 0] ! 3 \<noteq> 0"
    by simp
  from lb lm run set3 kept show ?thesis by simp
qed

text \<open>
  C2. The ground mask is filled with the colour 255, so its sum is 255 times the number
  of ground pixels, and the test \<^verbatim>\<open>mask.sum() > 0.1*ground_mask.sum()\<close> skips the
  update only when the flagged pixels exceed 25.5 times the ground pixels
  (\<open>update_burrow_mask_abort_threshold\<close>), not a tenth of them. On a raster of six
  pixels with four ground pixels, of which two are flagged (half of the ground region),
  the update is not skipped and the burrow mask changes.
\<close>

theorem update_proceeds_when_half_of_ground_flagged:
  "ground_pixels (get_ground_mask (\<lambda>p. 2 \<le> p) 6) = 4 \<and>
   np_sum (excavated [100, 100, 100, 100, 100, 100] [100, 100, 100, 100, 50, 50] 10) = 2 \<and>
   real 2 > 0.1 * real 4 \<and>
   np_sum (get_ground_mask (\<lambda>p. 2 \<le> p) 6) = 1020 \<and>
   \<not> real 2 > 0.1 * real 1020 \<and>
   update_burrow_mask row_morphology (\<lambda>p. 2 \<le> p) [100, 100, 100, 100, 100, 100] 10
      [100, 100, 100, 100, 50, 50] [0, 0, 0, 0, 0, 0] = [0, 0, 0, 0, 1, 1]"
proof -
  have "real 2 > 0.1 * real 4" "\<not> real 2 > 0.1 * real 1020" by simp_all
  with update_at_half_of_ground show ?thesis by simp
qed

section \<open>Theorems about the labelled regions\<close>

lemma check_region_cases:
  "check_region R P frame labels thr l st =
     (if keep_region R P frame labels thr l \<and> 2 < length (find_contour R labels l)
      then (fst st @ [find_contour R labels l], snd st)
      else if too_bright R P frame labels thr l then (fst st, clear_region (snd st) labels l)
      else st)"
  by (auto simp: check_region_def keep_region_def too_bright_def Let_def)

lemma fold_check_region:
  "fold (check_region R P frame labels thr) ls st =
     (fst st @ map (find_contour R labels)
        (filter (\<lambda>l. keep_region R P frame labels thr l \<and> 2 < length (find_contour R labels l)) ls),
      fold (\<lambda>l bm. clear_region bm labels l) (filter (too_bright R P frame labels thr) ls) (snd st))"
proof (induction ls arbitrary: st)
  case Nil
  then show ?case by simp
next
  case (Cons l ls)
  let ?f = "check_region R P frame labels thr"
  have excl: "keep_region R P frame labels thr l \<Longrightarrow> \<not> too_bright R P frame labels thr l"
    by (auto simp: keep_region_def too_bright_def)
  have step: "fold ?f (l # ls) st = fold ?f ls (?f l st)" by simp
  consider (kept) "keep_region R P frame labels thr l" "2 < length (find_contour R labels l)"
    | (bright) "too_bright R P frame labels thr l"
    | (other) "\<not> (keep_region R P frame labels thr l \<and> 2 < length (find_contour R labels l))"
        "\<not> too_bright R P frame labels thr l"
    by blast
  then show ?case
  proof cases
    case kept
    then have "?f l st = (fst st @ [find_contour R labels l], snd st)"
      by (simp add: check_region_cases)
    with kept excl show ?thesis unfolding step Cons.IH by simp
  next
    case bright
    with excl have "?f l st = (fst st, clear_region (snd st) labels l)"
      by (auto simp: check_region_cases)
    with bright excl show ?thesis unfolding step Cons.IH by auto
  next
    case other
    then have "?f l st = st" by (auto simp: check_region_cases)
    with other show ?thesis unfolding step Cons.IH by auto
  qed
qed

lemma clear_region_length:
  "length labels = length bm \<Longrightarrow> length (clear_region bm labels l) = length bm"
  by (simp add: clear_region_def)

lemma clear_region_nth:
  "length labels = length bm \<Longrightarrow> p < length bm \<Longrightarrow>
     clear_region bm labels l ! p = (if labels ! p = l then 0 else bm ! p)"
  by (simp add: clear_region_def)

lemma fold_clear_region:
  assumes "length labels = length bm"
  shows "fold (\<lambda>l bm. clear_region bm labels l) ls bm =
           map (\<lambda>(b, lab). if lab \<in> set ls then 0 else b) (zip bm labels)"
  using assms
proof (induction ls arbitrary: bm)
  case Nil
  then show ?case by (simp add: map_fst_zip [symmetric] zip_map_fst_snd del: map_fst_zip)
    (metis map_fst_zip map_eq_conv split_beta)
next
  case (Cons l ls)
  have len: "length labels = length (clear_region bm labels l)"
    using Cons.prems by (simp add: clear_region_length)
  show ?case
    unfolding fold_simps Cons.IH [OF len]
  proof (rule nth_equalityI)
    show "length (map (\<lambda>(b, lab). if lab \<in> set ls then 0 else b)
            (zip (clear_region bm labels l) labels)) =
          length (map (\<lambda>(b, lab). if lab \<in> set (l # ls) then 0 else b) (zip bm labels))"
      using Cons.prems by (simp add: clear_region_length)
  next
    fix p assume "p < length (map (\<lambda>(b, lab). if lab \<in> set ls then 0 else b)
            (zip (clear_region bm labels l) labels))"
    then have p: "p < length bm" using Cons.prems by (simp add: clear_region_length)
    then show "map (\<lambda>(b, lab). if lab \<in> set ls then 0 else b)
            (zip (clear_region bm labels l) labels) ! p =
          map (\<lambda>(b, lab). if lab \<in> set (l # ls) then 0 else b) (zip bm labels) ! p"
      using Cons.prems by (simp add: clear_region_length clear_region_nth)
  qed
qed

text \<open>
  C5 (as amended). Let \<^verbatim>\<open>ndimage.measurements.label\<close> give a label raster of the size of
  the burrow mask. Then \<^verbatim>\<open>get_burrow_chunks\<close> returns, in the order of the labels, the
  outer contours of exactly those regions whose area is at least the minimum burrow area,
  whose centroid is at least half the ground-point distance away from the ground line,
  whose mean frame intensity does not exceed the threshold \<open>0.8 * sand + (1 - 0.8) * sky\<close>,
  and whose contour has more than two points. The burrow mask is cleared exactly on the
  regions that pass the area and the distance test and are brighter than the threshold;
  every other pixel of the mask is unchanged.
\<close>

theorem get_burrow_chunks_filter:
  assumes lab: "label R bmask = (labels, n)" and len: "length labels = length bmask"
  shows "get_burrow_chunks R P frame bmask =
     (map (find_contour R labels)
        (filter (\<lambda>l. area_min P \<le> region_area R labels l \<and>
                      ground_point_distance P / 2 \<le> centroid_distance R labels l \<and>
                      region_mean frame labels l \<le> 0.8 * color_sand P + (1 - 0.8) * color_sky P \<and>
                      2 < length (find_contour R labels l))
           [1..<n + 1]),
      map (\<lambda>(b, lab). if lab \<in> {1..n} \<and>
                          area_min P \<le> region_area R labels lab \<and>
                          ground_point_distance P / 2 \<le> centroid_distance R labels lab \<and>
                          0.8 * color_sand P + (1 - 0.8) * color_sky P < region_mean frame labels lab
                       then 0 else b)
        (zip bmask labels))"
proof -
  let ?thr = "0.8 * color_sand P + (1 - 0.8) * color_sky P"
  have run: "get_burrow_chunks R P frame bmask =
               fold (check_region R P frame labels ?thr) [1..<n + 1] ([], bmask)"
    unfolding get_burrow_chunks_def lab Let_def by simp
  have chunks: "filter (\<lambda>l. keep_region R P frame labels ?thr l \<and>
                              2 < length (find_contour R labels l)) [1..<n + 1] =
        filter (\<lambda>l. area_min P \<le> region_area R labels l \<and>
                      ground_point_distance P / 2 \<le> centroid_distance R labels l \<and>
                      region_mean frame labels l \<le> ?thr \<and>
                      2 < length (find_contour R labels l)) [1..<n + 1]"
    unfolding keep_region_def by (rule filter_cong) auto
  have cleared: "map (\<lambda>(b, lab). if lab \<in> set (filter (too_bright R P frame labels ?thr) [1..<n + 1])
                                  then 0 else b) (zip bmask labels) =
        map (\<lambda>(b, lab). if lab \<in> {1..n} \<and>
                          area_min P \<le> region_area R labels lab \<and>
                          ground_point_distance P / 2 \<le> centroid_distance R labels lab \<and>
                          ?thr < region_mean frame labels lab
                       then 0 else b) (zip bmask labels)"
    unfolding too_bright_def by (rule map_cong) auto
  have "get_burrow_chunks R P frame bmask =
          (map (find_contour R labels)
             (filter (\<lambda>l. keep_region R P frame labels ?thr l \<and>
                           2 < length (find_contour R labels l)) [1..<n + 1]),
           fold (\<lambda>l bm. clear_region bm labels l)
             (filter (too_bright R P frame labels ?thr) [1..<n + 1]) bmask)"
    unfolding run fold_check_region by (simp only: fst_conv snd_conv append_Nil)
  then show ?thesis
    unfolding fold_clear_region [OF len] chunks cleared .
qed

text \<open>
  Two runs of three pixels: the first is dark and is kept with its contour of three
  points, the second is brighter than the threshold and is cleared from the mask.
\<close>

theorem get_burrow_chunks_filter_witness:
  "label grid_regions [0, 1, 1, 1, 0, 1, 1, 1] = ([0, 1, 1, 1, 0, 2, 2, 2], 2) \<and>
   length [0, 1, 1, 1, 0, 2, 2, 2 :: nat] = length [0, 1, 1, 1, 0, 1, 1, 1 :: 8 word] \<and>
   get_burrow_chunks grid_regions demo_parameters [20, 20, 20, 20, 20, 150, 150, 150]
     [0, 1, 1, 1, 0, 1, 1, 1] = ([[1, 2, 3]], [0, 1, 1, 1, 0, 0, 0, 0])"
proof -
  have lab: "label grid_regions [0, 1, 1, 1, 0, 1, 1, 1] = ([0, 1, 1, 1, 0, 2, 2, 2], 2)"
    by code_simp
  have len: "length [0, 1, 1, 1, 0, 2, 2, 2 :: nat] = length [0, 1, 1, 1, 0, 1, 1, 1 :: 8 word]"
    by simp
  have val: "(map (find_contour grid_regions [0, 1, 1, 1, 0, 2, 2, 2])
        (filter (\<lambda>l. area_min demo_parameters \<le> region_area grid_regions [0, 1, 1, 1, 0, 2, 2, 2] l \<and>
                      ground_point_distance demo_parameters / 2
                        \<le> centroid_distance grid_regions [0, 1, 1, 1, 0, 2, 2, 2] l \<and>
                      region_mean [20, 20, 20, 20, 20, 150, 150, 150] [0, 1, 1, 1, 0, 2, 2, 2] l
                        \<le> 0.8 * color_sand demo_parameters + (1 - 0.8) * color_sky demo_parameters \<and>
                      2 < length (find_contour grid_regions [0, 1, 1, 1, 0, 2, 2, 2] l))
           [1..<2 + 1]),
      map (\<lambda>(b, lab). if lab \<in> {1..2} \<and>
                          area_min demo_parameters \<le> region_area grid_regions [0, 1, 1, 1, 0, 2, 2, 2] lab \<and>
                          ground_point_distance demo_parameters / 2
                            \<le> centroid_distance grid_regions [0, 1, 1, 1, 0, 2, 2, 2] lab \<and>
                          0.8 * color_sand demo_parameters + (1 - 0.8) * color_sky demo_parameters
                            < region_mean [20, 20, 20, 20, 20, 150, 150, 150] [0, 1, 1, 1, 0, 2, 2, 2] lab
                       then 0 else b)
        (zip [0, 1, 1, 1, 0, 1, 1, 1 :: 8 word] [0, 1, 1, 1, 0, 2, 2, 2])) =
      ([[1, 2, 3]], [0, 1, 1, 1, 0, 0, 0, 0])"
    by code_simp
  from get_burrow_chunks_filter [OF lab len, of demo_parameters "[20, 20, 20, 20, 20, 150, 150, 150]"]
  have "get_burrow_chunks grid_regions demo_parameters [20, 20, 20, 20, 20, 150, 150, 150]
     [0, 1, 1, 1, 0, 1, 1, 1] = ([[1, 2, 3]], [0, 1, 1, 1, 0, 0, 0, 0])"
    unfolding val .
  with lab len show ?thesis by (intro conjI)
qed

text \<open>
  The claim as stated has every region that passes the three tests contribute its
  contour. A horizontal run of three pixels passes them, its simplified contour has two
  points, and the test \<^verbatim>\<open>len(contour) > 2\<close> drops it: no chunk is returned.
\<close>

theorem thin_region_yields_no_chunk:
  "label row_regions [0, 1, 1, 1, 0] = ([0, 1, 1, 1, 0], 1) \<and>
   area_min demo_parameters \<le> region_area row_regions [0, 1, 1, 1, 0] 1 \<and>
   ground_point_distance demo_parameters / 2 \<le> centroid_distance row_regions [0, 1, 1, 1, 0] 1 \<and>
   region_mean [20, 20, 20, 20, 20] [0, 1, 1, 1, 0] 1
     \<le> 0.8 * color_sand demo_parameters + (1 - 0.8) * color_sky demo_parameters \<and>
   find_contour row_regions [0, 1, 1, 1, 0] 1 = [1, 3] \<and>
   get_burrow_chunks row_regions demo_parameters [20, 20, 20, 20, 20] [0, 1, 1, 1, 0]
     = ([], [0, 1, 1, 1, 0])"
  by code_simp

text \<open>
  C8. The loop of \<^verbatim>\<open>get_initial_burrow_mask\<close> takes as area of the region with label
  \<open>i\<close> the sum of the label raster over the region, which is \<open>i\<close> times its pixel count.
  With the minimum burrow area 0.3 and the threshold colour 11, the first round finds two
  clusters of two pixels each: the largest cluster is below ten times the minimum area,
  yet the second one counts as 4, the threshold is lowered once more, and the second
  cluster is lost from the initial mask.
\<close>

theorem threshold_lowered_below_small_clusters:
  "apply_threshold [9.5, 9.5, 50, 10.5, 10.5] [255, 255, 255, 255, 255] 11 = [1, 1, 0, 1, 1] \<and>
   label row_regions [1, 1, 0, 1, 1] = ([1, 1, 0, 2, 2], 2) \<and>
   map (region_area row_regions [1, 1, 0, 2, 2]) [1, 2] = [2, 2] \<and>
   (2 :: real) < 10 * area_min bootstrap_parameters \<and>
   ndimage_sum [1, 1, 0, 2, 2] [1, 1, 0, 2, 2] [1..<2 + 1] = [2, 4] \<and>
   get_initial_burrow_mask row_regions bootstrap_parameters (\<lambda>p. True)
     [9.5, 9.5, 50, 10.5, 10.5] = Some (Inr [1, 1, 0, 0, 0])"
  by code_simp

end
